theory Spec2Isabelle
  imports Main "HOL-Library.Sublist"
begin

section \<open>The faucet's edge function: data model\<close>

text \<open>
  The Supabase edge function of the faucet (\<^verbatim>\<open>src/unnamed/part_000\<close>, the first
  document): the handler \<^verbatim>\<open>serve\<close>, the dispatcher \<^verbatim>\<open>sendTokens\<close> with its two
  polling helpers, and the helpers that read and write the tables.

  The program talks to three outside parties: the Supabase tables (the configuration and
  \<^verbatim>\<open>user_requests\<close>), the chain client (CosmJS) and the clock. The outside is a fixed
  script \<open>env\<close>: for each kind of call, the answer to the k-th call of that kind, which
  may be an exception. What changes while the program runs is the \<open>world\<close>: the clock
  \<open>now\<close> (\<^verbatim>\<open>Date.now()\<close>, in milliseconds), the number of calls made so far of each
  kind, and the rows of \<^verbatim>\<open>user_requests\<close>. Every function takes the world and returns
  it updated. The clock moves by the length of every pause and by the time each
  \<^verbatim>\<open>getAccount\<close> takes; the other calls take no time. A JavaScript exception is a value
  \<open>Inl (Error message)\<close>, and every \<^verbatim>\<open>throw\<close>, \<^verbatim>\<open>catch\<close> and early \<^verbatim>\<open>return\<close> of
  the source is a branch of a \<open>case\<close>. Dynamic imports and \<^verbatim>\<open>console\<close> output are left
  out.
\<close>

datatype error = Error string

fun message :: "error \<Rightarrow> string" where
  "message (Error m) = m"

text \<open>A row of \<^verbatim>\<open>user_requests\<close>; \<open>request_timestamp\<close> is set by the table on insert.\<close>

record user_request =
  ip_address :: string
  region :: "string option"
  user_agent :: "string option"
  receiver_address :: "string option"
  success :: bool
  transaction_hash :: "string option"
  request_timestamp :: int

record world =
  now :: int
  n_getAccount :: nat
  n_connect :: nat
  n_broadcast :: nat
  n_chainId :: nat
  n_balances :: nat
  n_wallet :: nat
  n_config :: nat
  n_count :: nat
  n_insert :: nat
  n_region :: nat
  rows :: "user_request list"

text \<open>A coin of a balance, and what \<^verbatim>\<open>signAndBroadcast\<close> resolves to. The gas fields are
  bigints in CosmJS; a field of the chain client that may be a number or a bigint is a
  \<open>jsnum\<close>.\<close>

record coin =
  coin_denom :: string
  coin_amount :: string

datatype jsnum = Num int | Big int

record tx_response =
  tx_transactionHash :: string
  tx_height :: jsnum
  tx_gasUsed :: "jsnum option"
  tx_gasWanted :: "jsnum option"

text \<open>A property read from a JSON object: missing (\<^verbatim>\<open>undefined\<close>), \<^verbatim>\<open>null\<close>, or a
  value.\<close>

datatype 'a column = Absent | Null | Val 'a

text \<open>The row of \<^verbatim>\<open>safro_faucet_config\<close>, its columns typed as \<^verbatim>\<open>FaucetConfig\<close> of
  \<^verbatim>\<open>src/services/api.ts\<close> declares them (strings and a number), with the two server-side
  columns \<^verbatim>\<open>mnemonic\<close> and \<^verbatim>\<open>rpc_endpoint\<close>.\<close>

record faucet_config =
  mnemonic :: "string column"
  rpc_endpoint :: "string column"
  denom :: "string column"
  amount :: "string column"
  prefix_col :: "string column"
  memo :: "string column"
  explorer_url_prefix :: "string column"
  requests_limit_per_day :: "int column"

text \<open>What a \<^verbatim>\<open>fetch\<close> of a table can do: throw, answer with a status that is not OK,
  or answer OK.\<close>

datatype config_fetch = ConfigThrows error | ConfigNotOk string | ConfigOk "faucet_config list"

datatype insert_fetch = InsertThrows error | InsertNotOk | InsertOk

datatype count_fetch = CountThrows error | CountNotOk | CountOkNotArray | CountOkRows

datatype region_fetch = RegionThrows | RegionNotOk
  | RegionJson "string option" "string option" "string option"

record env =
  getAccount_resp :: "nat \<Rightarrow> error + nat option"
  getAccount_ms :: "nat \<Rightarrow> nat"
  connect_resp :: "nat \<Rightarrow> error option"
  broadcast_resp :: "nat \<Rightarrow> error + tx_response"
  chainId_resp :: "nat \<Rightarrow> error + string"
  balances_resp :: "nat \<Rightarrow> error + coin list"
  validateMnemonic :: "string \<Rightarrow> bool"
  wallet_resp :: "nat \<Rightarrow> error + string"
  service_role_key :: "string option"
  config_resp :: "nat \<Rightarrow> config_fetch"
  count_resp :: "nat \<Rightarrow> count_fetch"
  insert_resp :: "nat \<Rightarrow> insert_fetch"
  region_resp :: "nat \<Rightarrow> region_fetch"

section \<open>The chain client and the clock\<close>

text \<open>\<^verbatim>\<open>await new Promise(resolve => setTimeout(resolve, ms))\<close>: the clock moves on.\<close>

definition sleep :: "nat \<Rightarrow> world \<Rightarrow> world" where
  "sleep ms w = w\<lparr>now := now w + int ms\<rparr>"

text \<open>\<^verbatim>\<open>client.getAccount(address)\<close>: the k-th call takes \<open>getAccount_ms e k\<close> milliseconds
  and throws, or resolves to null (\<open>None\<close>) or to an account with its sequence.\<close>

definition getAccount :: "env \<Rightarrow> world \<Rightarrow> (error + nat option) \<times> world" where
  "getAccount e w =
     (getAccount_resp e (n_getAccount w),
      w\<lparr>now := now w + int (getAccount_ms e (n_getAccount w)),
        n_getAccount := Suc (n_getAccount w)\<rparr>)"

text \<open>\<^verbatim>\<open>account ? account.sequence : 0\<close>\<close>

definition sequence_of :: "nat option \<Rightarrow> nat" where
  "sequence_of account = (case account of None \<Rightarrow> 0 | Some s \<Rightarrow> s)"

section \<open>waitForSequenceStable\<close>

definition requiredStableChecks :: nat where
  "requiredStableChecks = 5"

text \<open>
  The \<^verbatim>\<open>while (Date.now() - startTime < maxWaitMs)\<close> loop of
  \<^verbatim>\<open>waitForSequenceStable\<close>, with its variables \<open>lastSequence\<close> and \<open>stableCount\<close>
  as arguments. The \<^verbatim>\<open>continue\<close> after a changed final read skips the 800 ms pause.
\<close>

function waitForSequenceStable_loop ::
  "env \<Rightarrow> int \<Rightarrow> int \<Rightarrow> nat \<Rightarrow> nat \<Rightarrow> world \<Rightarrow> (error + nat) \<times> world" where
  "waitForSequenceStable_loop e startTime maxWaitMs lastSequence stableCount w =
     (if now w - startTime < maxWaitMs then
        (case fst (getAccount e w) of
           Inl err \<Rightarrow> (Inl err, snd (getAccount e w))
         | Inr account \<Rightarrow>
             (if sequence_of account = lastSequence then
                (if requiredStableChecks \<le> stableCount + 1 then
                   (case fst (getAccount e (sleep 1000 (snd (getAccount e w)))) of
                      Inl err \<Rightarrow> (Inl err, snd (getAccount e (sleep 1000 (snd (getAccount e w)))))
                    | Inr finalAccount \<Rightarrow>
                        (if sequence_of finalAccount \<noteq> sequence_of account then
                           waitForSequenceStable_loop e startTime maxWaitMs
                             (sequence_of finalAccount) 1
                             (snd (getAccount e (sleep 1000 (snd (getAccount e w)))))
                         else (Inr (sequence_of finalAccount),
                               snd (getAccount e (sleep 1000 (snd (getAccount e w)))))))
                 else waitForSequenceStable_loop e startTime maxWaitMs lastSequence
                        (stableCount + 1) (sleep 800 (snd (getAccount e w))))
              else waitForSequenceStable_loop e startTime maxWaitMs (sequence_of account) 1
                     (sleep 800 (snd (getAccount e w)))))
      else (Inr lastSequence, w))"
  by pat_completeness auto
termination
  by (relation "measure (\<lambda>(e, startTime, maxWaitMs, lastSequence, stableCount, w).
        nat (startTime + maxWaitMs - now w))")
     (auto simp: getAccount_def sleep_def)

definition waitForSequenceStable :: "env \<Rightarrow> nat \<Rightarrow> int \<Rightarrow> world \<Rightarrow> (error + nat) \<times> world" where
  "waitForSequenceStable e expectedSequence maxWaitMs w =
     waitForSequenceStable_loop e (now w) maxWaitMs expectedSequence 0 w"

section \<open>JavaScript strings and values\<close>

text \<open>Decimal digits of a number, as \<^verbatim>\<open>toString()\<close> and a template string print an integer.\<close>

definition digit_char :: "nat \<Rightarrow> char" where
  "digit_char d = char_of (48 + d)"

function nat_toString :: "nat \<Rightarrow> string" where
  "nat_toString n = (if n < 10 then [digit_char n] else nat_toString (n div 10) @ [digit_char (n mod 10)])"
  by pat_completeness auto
termination
  by (relation "measure id") auto

definition int_toString :: "int \<Rightarrow> string" where
  "int_toString i = (if i < 0 then CHR ''-'' # nat_toString (nat (- i)) else nat_toString (nat i))"

definition jsnum_toString :: "jsnum \<Rightarrow> string" where
  "jsnum_toString x = (case x of Num i \<Rightarrow> int_toString i | Big i \<Rightarrow> int_toString i)"

definition jsnum_truthy :: "jsnum \<Rightarrow> bool" where
  "jsnum_truthy x = (case x of Num i \<Rightarrow> i \<noteq> 0 | Big i \<Rightarrow> i \<noteq> 0)"

text \<open>A string or number read from JSON in a boolean position, and inside a template string.\<close>

definition truthy :: "string column \<Rightarrow> bool" where
  "truthy c = (case c of Absent \<Rightarrow> False | Null \<Rightarrow> False | Val s \<Rightarrow> s \<noteq> [])"

definition column_toString :: "string column \<Rightarrow> string" where
  "column_toString c = (case c of Absent \<Rightarrow> ''undefined'' | Null \<Rightarrow> ''null'' | Val s \<Rightarrow> s)"

text \<open>\<^verbatim>\<open>s.includes(sub)\<close>, \<^verbatim>\<open>s.startsWith(p)\<close> and \<^verbatim>\<open>s.split(c)\<close> for a separator of one
  character.\<close>

fun includes_str :: "string \<Rightarrow> string \<Rightarrow> bool" where
  "includes_str [] sub = (sub = [])"
| "includes_str (c # cs) sub = (prefix sub (c # cs) \<or> includes_str cs sub)"

definition startsWith :: "string \<Rightarrow> string \<Rightarrow> bool" where
  "startsWith s p = prefix p s"

fun split_on :: "char \<Rightarrow> string \<Rightarrow> string list" where
  "split_on c [] = [[]]"
| "split_on c (x # xs) =
     (if x = c then [] # split_on c xs
      else (case split_on c xs of [] \<Rightarrow> [[x]] | p # ps \<Rightarrow> (x # p) # ps))"

text \<open>\<^verbatim>\<open>s.trim()\<close>, on the ASCII white space: tab, line feed, vertical tab, form feed,
  carriage return and space.\<close>

definition is_space :: "char \<Rightarrow> bool" where
  "is_space c = (c \<in> set [char_of (9::nat), char_of (10::nat), char_of (11::nat),
                            char_of (12::nat), char_of (13::nat), CHR '' ''])"

definition trim :: "string \<Rightarrow> string" where
  "trim s = rev (dropWhile is_space (rev (dropWhile is_space s)))"

section \<open>waitForSequenceUpdate\<close>

text \<open>The polling loop after a broadcast; when the time is up, one final read is returned
  whatever it shows.\<close>

function waitForSequenceUpdate_loop ::
  "env \<Rightarrow> int \<Rightarrow> int \<Rightarrow> nat \<Rightarrow> world \<Rightarrow> (error + nat) \<times> world" where
  "waitForSequenceUpdate_loop e startTime maxWaitMs targetSequence w =
     (if now w - startTime < maxWaitMs then
        (case fst (getAccount e w) of
           Inl err \<Rightarrow> (Inl err, snd (getAccount e w))
         | Inr account \<Rightarrow>
             (if targetSequence \<le> sequence_of account
              then (Inr (sequence_of account), snd (getAccount e w))
              else waitForSequenceUpdate_loop e startTime maxWaitMs targetSequence
                     (sleep 1000 (snd (getAccount e w)))))
      else (case fst (getAccount e w) of
              Inl err \<Rightarrow> (Inl err, snd (getAccount e w))
            | Inr account \<Rightarrow> (Inr (sequence_of account), snd (getAccount e w))))"
  by pat_completeness auto
termination
  by (relation "measure (\<lambda>(e, startTime, maxWaitMs, targetSequence, w).
        nat (startTime + maxWaitMs - now w))")
     (auto simp: getAccount_def sleep_def)

definition waitForSequenceUpdate :: "env \<Rightarrow> nat \<Rightarrow> int \<Rightarrow> world \<Rightarrow> (error + nat) \<times> world" where
  "waitForSequenceUpdate e previousSequence maxWaitMs w =
     waitForSequenceUpdate_loop e (now w) maxWaitMs (previousSequence + 1) w"

section \<open>The configuration table\<close>

text \<open>\<^verbatim>\<open>fetchFaucetConfig\<close>: the newest row of the configuration table.\<close>

definition fetchFaucetConfig :: "env \<Rightarrow> world \<Rightarrow> (error + faucet_config) \<times> world" where
  "fetchFaucetConfig e w =
     (if service_role_key e = None \<or> service_role_key e = Some [] then
        (Inl (Error ''SUPABASE_SERVICE_ROLE_KEY secret is not set''), w)
      else
        (case config_resp e (n_config w) of
           ConfigThrows err \<Rightarrow> (Inl err, w\<lparr>n_config := Suc (n_config w)\<rparr>)
         | ConfigNotOk statusText \<Rightarrow>
             (Inl (Error (''Failed to fetch faucet config from Supabase: '' @ statusText)),
              w\<lparr>n_config := Suc (n_config w)\<rparr>)
         | ConfigOk configArr \<Rightarrow>
             (case configArr of
                [] \<Rightarrow> (Inl (Error ''No faucet config found in Supabase table''),
                       w\<lparr>n_config := Suc (n_config w)\<rparr>)
              | c # cs \<Rightarrow> (Inr c, w\<lparr>n_config := Suc (n_config w)\<rparr>))))"

section \<open>sendTokens\<close>

text \<open>The other calls of the chain client. Each answers from the script by the number of
  calls of its kind made so far; its arguments (endpoint, message, fee, address) do not
  change the answer.\<close>

definition connectWithSigner :: "env \<Rightarrow> string \<Rightarrow> world \<Rightarrow> error option \<times> world" where
  "connectWithSigner e rpcEndpointWithProtocol w =
     (connect_resp e (n_connect w), w\<lparr>n_connect := Suc (n_connect w)\<rparr>)"

definition signAndBroadcast :: "env \<Rightarrow> world \<Rightarrow> (error + tx_response) \<times> world" where
  "signAndBroadcast e w =
     (broadcast_resp e (n_broadcast w), w\<lparr>n_broadcast := Suc (n_broadcast w)\<rparr>)"

definition getChainId :: "env \<Rightarrow> world \<Rightarrow> (error + string) \<times> world" where
  "getChainId e w = (chainId_resp e (n_chainId w), w\<lparr>n_chainId := Suc (n_chainId w)\<rparr>)"

definition getAllBalances :: "env \<Rightarrow> string \<Rightarrow> world \<Rightarrow> (error + coin list) \<times> world" where
  "getAllBalances e address w =
     (balances_resp e (n_balances w), w\<lparr>n_balances := Suc (n_balances w)\<rparr>)"

text \<open>\<^verbatim>\<open>DirectSecp256k1HdWallet.fromMnemonic\<close> and \<^verbatim>\<open>getAccounts\<close>: the sender's address,
  or an exception.\<close>

definition senderAccount :: "env \<Rightarrow> world \<Rightarrow> (error + string) \<times> world" where
  "senderAccount e w = (wallet_resp e (n_wallet w), w\<lparr>n_wallet := Suc (n_wallet w)\<rparr>)"

text \<open>The object \<^verbatim>\<open>processedResult\<close> that a successful attempt returns.\<close>

record processed_result =
  pr_success :: bool
  pr_transactionHash :: string
  pr_chainId :: string
  pr_height :: jsnum
  pr_amount :: coin
  pr_senderAddress :: string
  pr_receiverAddress :: string
  pr_memo :: "string column"
  pr_senderBalance :: "coin list"
  pr_receiverBalance :: "coin list"
  pr_gasUsed :: "string option"
  pr_gasWanted :: "string option"
  pr_explorerTxUrl :: string

text \<open>\<^verbatim>\<open>result.gasUsed ? result.gasUsed.toString() : undefined\<close>\<close>

definition gas_field :: "jsnum option \<Rightarrow> string option" where
  "gas_field g = (case g of None \<Rightarrow> None
                  | Some x \<Rightarrow> (if jsnum_truthy x then Some (jsnum_toString x) else None))"

text \<open>The body of the inner \<^verbatim>\<open>try\<close>: one attempt, from the stabilizer to the returned
  object. \<open>Inl\<close> is what the \<^verbatim>\<open>catch\<close> receives.\<close>

definition attempt ::
  "env \<Rightarrow> string \<Rightarrow> string \<Rightarrow> coin \<Rightarrow> string column \<Rightarrow> string \<Rightarrow> world
     \<Rightarrow> (error + processed_result) \<times> world" where
  "attempt e senderAddress receiverAddress amount0 MEMO EXPLORER_TX_URL_PREFIX w =
     (case waitForSequenceStable e 0 10000 w of
        (Inl err, w1) \<Rightarrow> (Inl err, w1)
      | (Inr stableSequence, w1) \<Rightarrow>
          (case getAccount e (sleep 1000 w1) of
             (Inl err, w2) \<Rightarrow> (Inl err, w2)
           | (Inr finalCheck, w2) \<Rightarrow>
               (if sequence_of finalCheck \<noteq> stableSequence then
                  (Inl (Error (''Sequence changed right before signing: expected ''
                          @ nat_toString stableSequence @ '', got ''
                          @ nat_toString (sequence_of finalCheck) @ ''. Retrying...'')), w2)
                else
                  (case signAndBroadcast e w2 of
                     (Inl err, w3) \<Rightarrow> (Inl err, w3)
                   | (Inr result, w3) \<Rightarrow>
                       (case waitForSequenceUpdate e (sequence_of finalCheck) 15000 w3 of
                          (Inl err, w4) \<Rightarrow> (Inl err, w4)
                        | (Inr updated, w4) \<Rightarrow>
                            (case getChainId e w4 of
                               (Inl err, w5) \<Rightarrow> (Inl err, w5)
                             | (Inr chainId, w5) \<Rightarrow>
                                 (case getAllBalances e senderAddress w5 of
                                    (Inl err, w6) \<Rightarrow> (Inl err, w6)
                                  | (Inr senderBalance, w6) \<Rightarrow>
                                      (case getAllBalances e receiverAddress w6 of
                                         (Inl err, w7) \<Rightarrow> (Inl err, w7)
                                       | (Inr receiverBalance, w7) \<Rightarrow>
                                           (Inr \<lparr>pr_success = True,
                                                 pr_transactionHash = tx_transactionHash result,
                                                 pr_chainId = chainId,
                                                 pr_height = tx_height result,
                                                 pr_amount = amount0,
                                                 pr_senderAddress = senderAddress,
                                                 pr_receiverAddress = receiverAddress,
                                                 pr_memo = MEMO,
                                                 pr_senderBalance = senderBalance,
                                                 pr_receiverBalance = receiverBalance,
                                                 pr_gasUsed = gas_field (tx_gasUsed result),
                                                 pr_gasWanted = gas_field (tx_gasWanted result),
                                                 pr_explorerTxUrl =
                                                   EXPLORER_TX_URL_PREFIX @ tx_transactionHash result\<rparr>,
                                            w7)))))))))"

text \<open>The \<^verbatim>\<open>catch\<close> of an attempt: \<^verbatim>\<open>error.message || String(error)\<close>, the test for a
  sequence error and the pause it chooses.\<close>

definition errorMessage :: "error \<Rightarrow> string" where
  "errorMessage err = (if message err \<noteq> [] then message err else ''Error'')"

definition isSequenceError :: "string \<Rightarrow> bool" where
  "isSequenceError m = (includes_str m ''sequence''
                        \<or> includes_str m ''account sequence mismatch''
                        \<or> includes_str m ''incorrect account sequence'')"

definition backoff :: "error \<Rightarrow> nat" where
  "backoff err = (if isSequenceError (errorMessage err) then 5000 else 1000)"

text \<open>
  The \<^verbatim>\<open>while (retries > 0)\<close> loop with its variables \<open>retries\<close> and \<open>txError\<close>. The
  client is created outside the inner \<^verbatim>\<open>try\<close>, so its exception leaves the loop. The
  loop ends with \<open>retries = 0\<close>, where the code throws; the \<^verbatim>\<open>return\<close> after that
  \<^verbatim>\<open>throw\<close> is never reached.
\<close>

fun retry_loop ::
  "env \<Rightarrow> string \<Rightarrow> string \<Rightarrow> string \<Rightarrow> coin \<Rightarrow> string column \<Rightarrow> string \<Rightarrow> nat \<Rightarrow> error option
     \<Rightarrow> world \<Rightarrow> (error + processed_result) \<times> world" where
  "retry_loop e rpc senderAddress receiverAddress amount0 MEMO EXPLORER 0 txError w =
     (Inl (Error (''Transaction failed after multiple retries: ''
             @ (case txError of None \<Rightarrow> ''undefined'' | Some err \<Rightarrow> message err))), w)"
| "retry_loop e rpc senderAddress receiverAddress amount0 MEMO EXPLORER (Suc retries) txError w =
     (case connectWithSigner e rpc w of
        (Some err, w1) \<Rightarrow> (Inl err, w1)
      | (None, w1) \<Rightarrow>
          (case attempt e senderAddress receiverAddress amount0 MEMO EXPLORER w1 of
             (Inr processedResult, w2) \<Rightarrow> (Inr processedResult, w2)
           | (Inl err, w2) \<Rightarrow>
               retry_loop e rpc senderAddress receiverAddress amount0 MEMO EXPLORER retries
                 (Some err) (sleep (backoff err) w2)))"

text \<open>\<^verbatim>\<open>sendTokens\<close>: the configuration is read and checked, the wallet is made, and the
  retry loop runs with \<open>retries = 5\<close>. The outer \<^verbatim>\<open>catch\<close> throws what it caught.\<close>

definition default_explorer :: string where
  "default_explorer = ''https://rpcsafro.cardanotask.com/tx?hash=0x''"

definition sendTokens :: "env \<Rightarrow> string \<Rightarrow> world \<Rightarrow> (error + processed_result) \<times> world" where
  "sendTokens e receiverAddress w =
     (case fetchFaucetConfig e w of
        (Inl err, w1) \<Rightarrow> (Inl err, w1)
      | (Inr config, w1) \<Rightarrow>
          (if \<not> truthy (mnemonic config)
              \<or> length (split_on CHR '' '' (column_toString (mnemonic config))) < 12
              \<or> \<not> validateMnemonic e (column_toString (mnemonic config)) then
             (Inl (Error ''Invalid or missing MNEMONIC configuration''), w1)
           else if \<not> truthy (rpc_endpoint config) \<or> \<not> truthy (denom config)
                   \<or> \<not> truthy (amount config) \<or> \<not> truthy (prefix_col config) then
             (Inl (Error ''Missing required configuration (rpc_endpoint, denom, amount, or prefix)''), w1)
           else
             (case senderAccount e w1 of
                (Inl err, w2) \<Rightarrow> (Inl err, w2)
              | (Inr senderAddress, w2) \<Rightarrow>
                  retry_loop e
                    (if \<not> startsWith (column_toString (rpc_endpoint config)) ''http://''
                        \<and> \<not> startsWith (column_toString (rpc_endpoint config)) ''https://''
                     then ''https://'' @ column_toString (rpc_endpoint config)
                     else column_toString (rpc_endpoint config))
                    senderAddress receiverAddress
                    \<lparr>coin_denom = column_toString (denom config),
                     coin_amount = column_toString (amount config)\<rparr>
                    (memo config)
                    (case explorer_url_prefix config of
                       Absent \<Rightarrow> default_explorer
                     | c \<Rightarrow> column_toString c)
                    5 None w2)))"

section \<open>The table of requests\<close>

text \<open>
  \<^verbatim>\<open>insertUserRequest\<close>: one POST to \<^verbatim>\<open>user_requests\<close>. The table stores the row, stamped
  with its own clock, when it answers OK; an answer that is not OK is only logged; an
  exception of \<^verbatim>\<open>fetch\<close> is not caught here. A receiver that is \<^verbatim>\<open>undefined\<close> or
  \<^verbatim>\<open>null\<close> is stored as null.
\<close>

definition insertUserRequest ::
  "env \<Rightarrow> string \<Rightarrow> string option \<Rightarrow> string option \<Rightarrow> string column \<Rightarrow> bool \<Rightarrow> string option
     \<Rightarrow> world \<Rightarrow> error option \<times> world" where
  "insertUserRequest e ip region0 ua receiver success0 hash w =
     (case insert_resp e (n_insert w) of
        InsertThrows err \<Rightarrow> (Some err, w\<lparr>n_insert := Suc (n_insert w)\<rparr>)
      | InsertNotOk \<Rightarrow> (None, w\<lparr>n_insert := Suc (n_insert w)\<rparr>)
      | InsertOk \<Rightarrow>
          (None, w\<lparr>n_insert := Suc (n_insert w),
                  rows := rows w @
                    [\<lparr>ip_address = ip, region = region0, user_agent = ua,
                      receiver_address = (case receiver of Val a \<Rightarrow> Some a | _ \<Rightarrow> None),
                      success = success0, transaction_hash = hash,
                      request_timestamp = now w\<rparr>]\<rparr>))"

text \<open>
  The two counting queries. The URL of a query is its list of filters, which the table
  applies to its rows as PostgREST does: \<^verbatim>\<open>column=eq.value\<close> keeps the rows whose column
  equals the value, \<^verbatim>\<open>request_timestamp=gte.since\<close> the rows stamped at or after
  \<open>since\<close>, and the filters of one URL all hold together.
\<close>

datatype row_filter = Ip_address_eq string | Receiver_address_eq string | Success_eq bool
  | Request_timestamp_gte int

fun row_matches :: "user_request \<Rightarrow> row_filter \<Rightarrow> bool" where
  "row_matches r (Ip_address_eq v) = (ip_address r = v)"
| "row_matches r (Receiver_address_eq v) = (receiver_address r = Some v)"
| "row_matches r (Success_eq b) = (success r = b)"
| "row_matches r (Request_timestamp_gte t) = (t \<le> request_timestamp r)"

definition select_rows :: "row_filter list \<Rightarrow> user_request list \<Rightarrow> user_request list" where
  "select_rows fs rs = filter (\<lambda>r. list_all (row_matches r) fs) rs"

definition getRequestCountByIp :: "env \<Rightarrow> string \<Rightarrow> int \<Rightarrow> world \<Rightarrow> (error + nat) \<times> world" where
  "getRequestCountByIp e ip sinceISO w =
     (case count_resp e (n_count w) of
        CountThrows err \<Rightarrow> (Inl err, w\<lparr>n_count := Suc (n_count w)\<rparr>)
      | CountNotOk \<Rightarrow> (Inr 0, w\<lparr>n_count := Suc (n_count w)\<rparr>)
      | CountOkNotArray \<Rightarrow> (Inr 0, w\<lparr>n_count := Suc (n_count w)\<rparr>)
      | CountOkRows \<Rightarrow>
          (Inr (length (select_rows
                  [Ip_address_eq ip, Success_eq True, Request_timestamp_gte sinceISO] (rows w))),
           w\<lparr>n_count := Suc (n_count w)\<rparr>))"

definition getRequestCountByAddress ::
  "env \<Rightarrow> string column \<Rightarrow> int \<Rightarrow> world \<Rightarrow> (error + nat) \<times> world" where
  "getRequestCountByAddress e address sinceISO w =
     (case count_resp e (n_count w) of
        CountThrows err \<Rightarrow> (Inl err, w\<lparr>n_count := Suc (n_count w)\<rparr>)
      | CountNotOk \<Rightarrow> (Inr 0, w\<lparr>n_count := Suc (n_count w)\<rparr>)
      | CountOkNotArray \<Rightarrow> (Inr 0, w\<lparr>n_count := Suc (n_count w)\<rparr>)
      | CountOkRows \<Rightarrow>
          (Inr (length (select_rows
                  [Receiver_address_eq (column_toString address), Success_eq True,
                   Request_timestamp_gte sinceISO] (rows w))),
           w\<lparr>n_count := Suc (n_count w)\<rparr>))"

text \<open>\<^verbatim>\<open>fetchRegion\<close>: never throws; \<^verbatim>\<open>[country, region, city].filter(Boolean).join(", ")\<close>.\<close>

fun join_comma :: "string list \<Rightarrow> string" where
  "join_comma [] = []"
| "join_comma [x] = x"
| "join_comma (x # y # ys) = x @ '', '' @ join_comma (y # ys)"

definition fetchRegion :: "env \<Rightarrow> string \<Rightarrow> world \<Rightarrow> string option \<times> world" where
  "fetchRegion e ip w =
     (if ip = [] \<or> ip = ''127.0.0.1'' \<or> ip = ''::1'' then (None, w)
      else
        (case region_resp e (n_region w) of
           RegionThrows \<Rightarrow> (None, w\<lparr>n_region := Suc (n_region w)\<rparr>)
         | RegionNotOk \<Rightarrow> (None, w\<lparr>n_region := Suc (n_region w)\<rparr>)
         | RegionJson country region0 city \<Rightarrow>
             (if country \<noteq> None \<and> country \<noteq> Some [] then
                Some (join_comma (concat (map (\<lambda>x. case x of None \<Rightarrow> [] | Some t \<Rightarrow> (if t = [] then [] else [t]))
                                            [country, region0, city])))
              else None,
              w\<lparr>n_region := Suc (n_region w)\<rparr>)))"

section \<open>JSON.stringify\<close>

text \<open>
  JavaScript values as far as the responses hold them, and JSON texts as trees. A number
  is an integer here; a bigint is a value of its own, which \<^verbatim>\<open>JSON.stringify\<close> refuses
  with a TypeError unless a replacer has turned it into something else.
\<close>

datatype jsval = VUndefined | VNull | VBool bool | VNumber int | VBigInt int | VString string
  | VArray "jsval list" | VObject "(string \<times> jsval) list"

datatype json = JNull | JBool bool | JNumber int | JString string
  | JArray "json list" | JObject "(string \<times> json) list"

text \<open>The replacer of \<^verbatim>\<open>JSONStringifyWithBigInt\<close>:
  \<^verbatim>\<open>(_, value) => typeof value === "bigint" ? value.toString() : value\<close>\<close>

definition bigint_replacer :: "jsval \<Rightarrow> jsval" where
  "bigint_replacer v = (case v of VBigInt n \<Rightarrow> VString (int_toString n) | _ \<Rightarrow> v)"

text \<open>The results of the elements, in order; the first exception wins.\<close>

fun collect :: "('e + 'a) list \<Rightarrow> 'e + 'a list" where
  "collect [] = Inr []"
| "collect (Inl err # rs) = Inl err"
| "collect (Inr x # rs) = (case collect rs of Inl err \<Rightarrow> Inl err | Inr xs \<Rightarrow> Inr (x # xs))"

text \<open>
  The serialization of one value (SerializeJSONProperty of the language standard), with
  the replacer above when \<open>r\<close> holds and with none otherwise: the replacer is applied to
  the value first, then the value is written by its type. \<open>Inr None\<close> is \<^verbatim>\<open>undefined\<close>:
  such a property is left out of an object and written as null in an array.
\<close>

function SerializeJSONProperty :: "bool \<Rightarrow> jsval \<Rightarrow> error + json option" where
  "SerializeJSONProperty r v =
     (case (if r then bigint_replacer v else v) of
        VUndefined \<Rightarrow> Inr None
      | VNull \<Rightarrow> Inr (Some JNull)
      | VBool b \<Rightarrow> Inr (Some (JBool b))
      | VNumber n \<Rightarrow> Inr (Some (JNumber n))
      | VBigInt n \<Rightarrow> Inl (Error ''Do not know how to serialize a BigInt'')
      | VString s \<Rightarrow> Inr (Some (JString s))
      | VArray xs \<Rightarrow>
          (case collect (map (SerializeJSONProperty r) xs) of
             Inl err \<Rightarrow> Inl err
           | Inr js \<Rightarrow> Inr (Some (JArray (map (\<lambda>j. case j of None \<Rightarrow> JNull | Some x \<Rightarrow> x) js))))
      | VObject ps \<Rightarrow>
          (case collect (map (\<lambda>p. case SerializeJSONProperty r (snd p) of
                                     Inl err \<Rightarrow> Inl err
                                   | Inr j \<Rightarrow> Inr (fst p, j)) ps) of
             Inl err \<Rightarrow> Inl err
           | Inr kjs \<Rightarrow>
               Inr (Some (JObject (concat (map (\<lambda>kj. case snd kj of None \<Rightarrow> []
                                                     | Some x \<Rightarrow> [(fst kj, x)]) kjs))))))"
  by pat_completeness auto
termination
proof (relation "measure (\<lambda>(r, v). size v)", goal_cases)
  case 1
  show ?case by simp
next
  case (2 r v xs x)
  from 2(1) have v: "v = VArray xs"
    by (cases v) (auto simp: bigint_replacer_def split: if_splits)
  have "size x \<le> size_list size xs"
    using 2(2) by (simp add: size_list_estimation')
  then show ?case unfolding v by simp
next
  case (3 r v ps p)
  from 3(1) have v: "v = VObject ps"
    by (cases v) (auto simp: bigint_replacer_def split: if_splits)
  have "size (snd p) \<le> size_prod (\<lambda>_. 0) size p" by (cases p) simp
  then have "size (snd p) \<le> size_list (size_prod (\<lambda>_. 0) size) ps"
    using 3(2) by (rule size_list_estimation' [rotated])
  then show ?case unfolding v by simp
qed

definition JSON_stringify :: "jsval \<Rightarrow> error + json option" where
  "JSON_stringify obj = SerializeJSONProperty False obj"

definition JSONStringifyWithBigInt :: "jsval \<Rightarrow> error + json option" where
  "JSONStringifyWithBigInt obj = SerializeJSONProperty True obj"

text \<open>The object literal \<^verbatim>\<open>processedResult\<close> as a JavaScript value.\<close>

definition coin_object :: "coin \<Rightarrow> jsval" where
  "coin_object c = VObject [(''denom'', VString (coin_denom c)), (''amount'', VString (coin_amount c))]"

definition jsnum_value :: "jsnum \<Rightarrow> jsval" where
  "jsnum_value x = (case x of Num i \<Rightarrow> VNumber i | Big i \<Rightarrow> VBigInt i)"

definition column_value :: "string column \<Rightarrow> jsval" where
  "column_value c = (case c of Absent \<Rightarrow> VUndefined | Null \<Rightarrow> VNull | Val s \<Rightarrow> VString s)"

definition optional_string :: "string option \<Rightarrow> jsval" where
  "optional_string x = (case x of None \<Rightarrow> VUndefined | Some s \<Rightarrow> VString s)"

definition result_object :: "processed_result \<Rightarrow> jsval" where
  "result_object r = VObject
     [(''success'', VBool (pr_success r)),
      (''transactionHash'', VString (pr_transactionHash r)),
      (''chainId'', VString (pr_chainId r)),
      (''height'', jsnum_value (pr_height r)),
      (''amount'', coin_object (pr_amount r)),
      (''senderAddress'', VString (pr_senderAddress r)),
      (''receiverAddress'', VString (pr_receiverAddress r)),
      (''memo'', column_value (pr_memo r)),
      (''senderBalance'', VArray (map coin_object (pr_senderBalance r))),
      (''receiverBalance'', VArray (map coin_object (pr_receiverBalance r))),
      (''gasUsed'', optional_string (pr_gasUsed r)),
      (''gasWanted'', optional_string (pr_gasWanted r)),
      (''explorerTxUrl'', VString (pr_explorerTxUrl r))]"

section \<open>serve\<close>

text \<open>
  An inbound request: its method, the three headers the handler reads (\<open>None\<close> when the
  header is missing) and what \<^verbatim>\<open>(await req.json()).receiver\<close> gives: an exception when
  the body is not JSON or not an object, else the property \<^verbatim>\<open>receiver\<close>, a string as
  \<^verbatim>\<open>TransactionRequest\<close> declares it. A response is its status and its body.
\<close>

record request =
  req_method :: string
  x_forwarded_for :: "string option"
  x_real_ip :: "string option"
  user_agent_header :: "string option"
  req_receiver :: "error + string column"

record response =
  status :: nat
  body :: "json option"

text \<open>\<^verbatim>\<open>req.headers.get("x-forwarded-for")?.split(",")[0]?.trim() || req.headers.get("x-real-ip") || ""\<close>\<close>

definition request_ip :: "request \<Rightarrow> string" where
  "request_ip req =
     (case (case x_forwarded_for req of
              None \<Rightarrow> []
            | Some h \<Rightarrow> (case split_on CHR '','' h of [] \<Rightarrow> [] | p # ps \<Rightarrow> trim p)) of
        [] \<Rightarrow> (case x_real_ip req of None \<Rightarrow> [] | Some a \<Rightarrow> a)
      | c # cs \<Rightarrow> c # cs)"

text \<open>\<^verbatim>\<open>req.headers.get("user-agent") || null\<close>\<close>

definition request_user_agent :: "request \<Rightarrow> string option" where
  "request_user_agent req =
     (case user_agent_header req of None \<Rightarrow> None | Some a \<Rightarrow> (if a = [] then None else Some a))"

text \<open>\<^verbatim>\<open>config.requests_limit_per_day || 3\<close>\<close>

definition requests_limit :: "faucet_config \<Rightarrow> int" where
  "requests_limit config =
     (case requests_limit_per_day config of
        Val n \<Rightarrow> (if n \<noteq> 0 then n else 3)
      | _ \<Rightarrow> 3)"

text \<open>The bodies \<^verbatim>\<open>JSON.stringify\<close> writes for the object literals of the handler.\<close>

definition rate_limit_body :: "string \<Rightarrow> string \<Rightarrow> json" where
  "rate_limit_body msg kind =
     JObject [(''error'', JString msg), (''success'', JBool False), (''rateLimitType'', JString kind)]"

definition error_body :: "string \<Rightarrow> json" where
  "error_body msg = JObject [(''error'', JString msg), (''success'', JBool False)]"

text \<open>
  What the four rejections after the counts share: the row with \<^verbatim>\<open>region: null\<close>,
  \<^verbatim>\<open>success: false\<close> and \<^verbatim>\<open>transaction_hash: null\<close> is inserted, then the response is
  returned. An exception of the insert goes to the \<^verbatim>\<open>catch\<close> of the handler.
\<close>

definition log_failed_then ::
  "env \<Rightarrow> string \<Rightarrow> string option \<Rightarrow> string column \<Rightarrow> response \<Rightarrow> world
     \<Rightarrow> (error + response) \<times> world" where
  "log_failed_then e ip ua receiver resp w =
     (case insertUserRequest e ip None ua receiver False None w of
        (Some err, w1) \<Rightarrow> (Inl err, w1)
      | (None, w1) \<Rightarrow> (Inr resp, w1))"

text \<open>
  The end of the \<^verbatim>\<open>try\<close> block, for a request that passed the limits and the prefix
  check: the region is looked up, the tokens are sent, the row of the attempt is written
  and the result is returned. An exception comes with the value \<open>region\<close> has when it is
  thrown, which the \<^verbatim>\<open>catch\<close> logs.
\<close>

definition serve_dispatch ::
  "env \<Rightarrow> string \<Rightarrow> string option \<Rightarrow> string column \<Rightarrow> world
     \<Rightarrow> ((error \<times> string option) + response) \<times> world" where
  "serve_dispatch e ip ua receiver w =
     (case fetchRegion e ip w of
        (region0, w1) \<Rightarrow>
          (case sendTokens e (column_toString receiver) w1 of
             (Inl err, w2) \<Rightarrow> (Inl (err, region0), w2)
           | (Inr result, w2) \<Rightarrow>
               (case insertUserRequest e ip region0 ua receiver (pr_success result)
                       (if pr_success result \<and> pr_transactionHash result \<noteq> []
                        then Some (pr_transactionHash result) else None) w2 of
                  (Some err, w3) \<Rightarrow> (Inl (err, region0), w3)
                | (None, w3) \<Rightarrow>
                    (case JSONStringifyWithBigInt (result_object result) of
                       Inl err \<Rightarrow> (Inl (err, region0), w3)
                     | Inr text0 \<Rightarrow> (Inr \<lparr>status = 200, body = text0\<rparr>, w3)))))"

text \<open>
  The \<^verbatim>\<open>try\<close> block from the rate limits on, given the two counts: the three denials
  in their order, then the prefix check, then the dispatch.
\<close>

definition serve_checked ::
  "env \<Rightarrow> string \<Rightarrow> string option \<Rightarrow> string column \<Rightarrow> string column \<Rightarrow> int \<Rightarrow> nat \<Rightarrow> nat \<Rightarrow> world
     \<Rightarrow> ((error \<times> string option) + response) \<times> world" where
  "serve_checked e ip ua receiver PREFIX REQUESTS_LIMIT ipRequestCount addressRequestCount w =
     (if REQUESTS_LIMIT \<le> int ipRequestCount \<and> REQUESTS_LIMIT \<le> int addressRequestCount then
        (case log_failed_then e ip ua receiver
                \<lparr>status = 429, body = Some (rate_limit_body
                   (''Rate limit exceeded. Both your IP address and wallet address have reached the maximum of ''
                    @ int_toString REQUESTS_LIMIT @ '' faucet requests per 24 hours.'') ''both'')\<rparr> w of
           (Inl err, w1) \<Rightarrow> (Inl (err, None), w1)
         | (Inr resp, w1) \<Rightarrow> (Inr resp, w1))
      else if REQUESTS_LIMIT \<le> int ipRequestCount then
        (case log_failed_then e ip ua receiver
                \<lparr>status = 429, body = Some (rate_limit_body
                   (''Rate limit exceeded. Your IP address has reached the maximum of ''
                    @ int_toString REQUESTS_LIMIT @ '' faucet requests per 24 hours.'') ''ip'')\<rparr> w of
           (Inl err, w1) \<Rightarrow> (Inl (err, None), w1)
         | (Inr resp, w1) \<Rightarrow> (Inr resp, w1))
      else if REQUESTS_LIMIT \<le> int addressRequestCount then
        (case log_failed_then e ip ua receiver
                \<lparr>status = 429, body = Some (rate_limit_body
                   (''Rate limit exceeded. This wallet address has already received the maximum of ''
                    @ int_toString REQUESTS_LIMIT @ '' faucet requests per 24 hours.'') ''address'')\<rparr> w of
           (Inl err, w1) \<Rightarrow> (Inl (err, None), w1)
         | (Inr resp, w1) \<Rightarrow> (Inr resp, w1))
      else if \<not> truthy receiver
              \<or> \<not> startsWith (column_toString receiver) (column_toString PREFIX) then
        (case log_failed_then e ip ua receiver
                \<lparr>status = 400, body = Some (JObject [(''error'', JString
                   (''Invalid receiver address. Must start with: '' @ column_toString PREFIX))])\<rparr> w of
           (Inl err, w1) \<Rightarrow> (Inl (err, None), w1)
         | (Inr resp, w1) \<Rightarrow> (Inr resp, w1))
      else serve_dispatch e ip ua receiver w)"

text \<open>
  The \<^verbatim>\<open>try\<close> block from its start: the body is read, the configuration fetched, the
  request without an IP answered, and both counts taken over the last 24 hours. An
  exception comes with the values \<open>receiver_address\<close> and \<open>region\<close> have when it is
  thrown.
\<close>

definition serve_try ::
  "env \<Rightarrow> request \<Rightarrow> world \<Rightarrow> ((error \<times> string column \<times> string option) + response) \<times> world" where
  "serve_try e req w =
     (case req_receiver req of
        Inl err \<Rightarrow> (Inl (err, Val [], None), w)
      | Inr receiver \<Rightarrow>
          (case fetchFaucetConfig e w of
             (Inl err, w1) \<Rightarrow> (Inl (err, receiver, None), w1)
           | (Inr config, w1) \<Rightarrow>
               (if request_ip req = [] then
                  (Inr \<lparr>status = 400,
                        body = Some (error_body ''IP address could not be determined'')\<rparr>, w1)
                else
                  (case getRequestCountByIp e (request_ip req)
                          (now w1 - 24 * 60 * 60 * 1000) w1 of
                     (Inl err, w2) \<Rightarrow> (Inl (err, receiver, None), w2)
                   | (Inr ipRequestCount, w2) \<Rightarrow>
                       (case getRequestCountByAddress e receiver
                               (now w1 - 24 * 60 * 60 * 1000) w2 of
                          (Inl err, w3) \<Rightarrow> (Inl (err, receiver, None), w3)
                        | (Inr addressRequestCount, w3) \<Rightarrow>
                            (case serve_checked e (request_ip req) (request_user_agent req)
                                    receiver (prefix_col config) (requests_limit config)
                                    ipRequestCount addressRequestCount w3 of
                               (Inl (err, region0), w4) \<Rightarrow> (Inl (err, receiver, region0), w4)
                             | (Inr resp, w4) \<Rightarrow> (Inr resp, w4)))))))"

text \<open>
  The handler. An \<^verbatim>\<open>OPTIONS\<close> request is answered at once. The \<^verbatim>\<open>catch\<close> tries to log
  the failed request, ignores an exception of that insert, and answers 500 with the
  message of the error.
\<close>

definition serve :: "env \<Rightarrow> request \<Rightarrow> world \<Rightarrow> response \<times> world" where
  "serve e req w =
     (if req_method req = ''OPTIONS'' then (\<lparr>status = 200, body = None\<rparr>, w)
      else
        (case serve_try e req w of
           (Inr resp, w1) \<Rightarrow> (resp, w1)
         | (Inl (err, receiver, region0), w1) \<Rightarrow>
             (\<lparr>status = 500, body = Some (error_body (message err))\<rparr>,
              snd (insertUserRequest e (request_ip req) region0 (request_user_agent req)
                     receiver False None w1))))"

section \<open>Notions of the statements\<close>

text \<open>The sequence that the k-th call of \<^verbatim>\<open>getAccount\<close> shows; \<open>None\<close> when that call
  throws.\<close>

definition observation :: "env \<Rightarrow> nat \<Rightarrow> nat option" where
  "observation e k = (case getAccount_resp e k of Inl err \<Rightarrow> None | Inr account \<Rightarrow> Some (sequence_of account))"

text \<open>
  What the claim about large integers speaks of, written from its words: the value in
  which every bigint has been replaced by its decimal string, the integer that a decimal
  string reads back to, and the JSON text expected for the object of a successful
  dispatch.
\<close>

fun bigints_as_strings :: "jsval \<Rightarrow> jsval" where
  "bigints_as_strings (VBigInt n) = VString (int_toString n)"
| "bigints_as_strings (VArray xs) = VArray (map bigints_as_strings xs)"
| "bigints_as_strings (VObject ps) = VObject (map (\<lambda>p. (fst p, bigints_as_strings (snd p))) ps)"
| "bigints_as_strings v = v"

definition digit_value :: "char \<Rightarrow> nat option" where
  "digit_value c = (if 48 \<le> (of_char c :: nat) \<and> (of_char c :: nat) \<le> 57
                    then Some (of_char c - 48) else None)"

fun decimal_nat :: "nat \<Rightarrow> string \<Rightarrow> nat option" where
  "decimal_nat acc [] = Some acc"
| "decimal_nat acc (c # cs) =
     (case digit_value c of None \<Rightarrow> None | Some d \<Rightarrow> decimal_nat (10 * acc + d) cs)"

definition decimal_value :: "string \<Rightarrow> int option" where
  "decimal_value s =
     (case s of
        [] \<Rightarrow> None
      | c # cs \<Rightarrow>
          (if c = CHR ''-'' then (if cs = [] then None else map_option (\<lambda>n. - int n) (decimal_nat 0 cs))
           else map_option int (decimal_nat 0 s)))"

definition jsnum_int :: "jsnum \<Rightarrow> int" where
  "jsnum_int x = (case x of Num i \<Rightarrow> i | Big i \<Rightarrow> i)"

definition coin_json :: "coin \<Rightarrow> json" where
  "coin_json c = JObject [(''denom'', JString (coin_denom c)), (''amount'', JString (coin_amount c))]"

definition result_json :: "processed_result \<Rightarrow> json" where
  "result_json r = JObject
     ([(''success'', JBool (pr_success r)),
       (''transactionHash'', JString (pr_transactionHash r)),
       (''chainId'', JString (pr_chainId r)),
       (''height'', (case pr_height r of Num i \<Rightarrow> JNumber i | Big i \<Rightarrow> JString (int_toString i))),
       (''amount'', coin_json (pr_amount r)),
       (''senderAddress'', JString (pr_senderAddress r)),
       (''receiverAddress'', JString (pr_receiverAddress r))]
      @ (case pr_memo r of Absent \<Rightarrow> [] | Null \<Rightarrow> [(''memo'', JNull)] | Val s \<Rightarrow> [(''memo'', JString s)])
      @ [(''senderBalance'', JArray (map coin_json (pr_senderBalance r))),
         (''receiverBalance'', JArray (map coin_json (pr_receiverBalance r)))]
      @ (case pr_gasUsed r of None \<Rightarrow> [] | Some s \<Rightarrow> [(''gasUsed'', JString s)])
      @ (case pr_gasWanted r of None \<Rightarrow> [] | Some s \<Rightarrow> [(''gasWanted'', JString s)])
      @ [(''explorerTxUrl'', JString (pr_explorerTxUrl r))])"

text \<open>The world with the rows and the insert counter of the table \<^verbatim>\<open>user_requests\<close>
  replaced, and what it means that exactly one row, with a given IP and outcome, was
  written between two worlds.\<close>

definition set_store :: "user_request list \<Rightarrow> nat \<Rightarrow> world \<Rightarrow> world" where
  "set_store rs k w = w\<lparr>rows := rs, n_insert := k\<rparr>"

definition logged_once :: "world \<Rightarrow> world \<Rightarrow> string \<Rightarrow> bool \<Rightarrow> bool" where
  "logged_once w w' ip ok =
     (\<exists>r. rows w' = rows w @ [r] \<and> n_insert w' = Suc (n_insert w)
          \<and> ip_address r = ip \<and> success r = ok)"

section \<open>Sample worlds\<close>

text \<open>A configuration, an outside where every call succeeds and the sequence rests at 7,
  and a world in which nothing has happened yet; then two outsides whose sequence moves: on
  every read, and once between the fifth and the sixth read.\<close>

definition sample_config :: faucet_config where
  "sample_config =
     \<lparr>mnemonic = Val ''abandon abandon abandon abandon abandon abandon abandon abandon abandon abandon abandon about'',
      rpc_endpoint = Val ''rpc.example.org'',
      denom = Val ''usaf'',
      amount = Val ''250000000'',
      prefix_col = Val ''addr_safro'',
      memo = Val ''faucet'',
      explorer_url_prefix = Absent,
      requests_limit_per_day = Val 3\<rparr>"

definition sample_tx :: tx_response where
  "sample_tx = \<lparr>tx_transactionHash = ''A1B2'', tx_height = Num 1200,
                 tx_gasUsed = Some (Big 90000), tx_gasWanted = Some (Big 200000)\<rparr>"

definition healthy_env :: env where
  "healthy_env =
     \<lparr>getAccount_resp = (\<lambda>k. Inr (Some 7)),
      getAccount_ms = (\<lambda>k. 0),
      connect_resp = (\<lambda>k. None),
      broadcast_resp = (\<lambda>k. Inr sample_tx),
      chainId_resp = (\<lambda>k. Inr ''safro-testnet-1''),
      balances_resp = (\<lambda>k. Inr [\<lparr>coin_denom = ''usaf'', coin_amount = ''1000''\<rparr>]),
      validateMnemonic = (\<lambda>m. True),
      wallet_resp = (\<lambda>k. Inr ''addr_safro1sender''),
      service_role_key = Some ''key'',
      config_resp = (\<lambda>k. ConfigOk [sample_config]),
      count_resp = (\<lambda>k. CountOkRows),
      insert_resp = (\<lambda>k. InsertOk),
      region_resp = (\<lambda>k. RegionNotOk)\<rparr>"

definition world0 :: world where
  "world0 = \<lparr>now = 100000000, n_getAccount = 0, n_connect = 0, n_broadcast = 0, n_chainId = 0,
             n_balances = 0, n_wallet = 0, n_config = 0, n_count = 0, n_insert = 0,
             n_region = 0, rows = []\<rparr>"

definition counting_env :: env where
  "counting_env = healthy_env\<lparr>getAccount_resp := (\<lambda>k. Inr (Some k))\<rparr>"

definition flip_env :: env where
  "flip_env = healthy_env\<lparr>getAccount_resp := (\<lambda>k. Inr (Some (if k < 5 then 7 else 9)))\<rparr>"

text \<open>Requests and a table for the examples: a request from 203.0.113.7, one without any
  IP header, and a table that holds three successful requests of that IP within the last
  day.\<close>

definition sample_request :: request where
  "sample_request = \<lparr>req_method = ''POST'', x_forwarded_for = Some ''203.0.113.7, 10.0.0.1'',
                      x_real_ip = None, user_agent_header = Some ''curl/8.0'',
                      req_receiver = Inr (Val ''addr_safro1xyz'')\<rparr>"

definition ip_row :: "int \<Rightarrow> user_request" where
  "ip_row t = \<lparr>ip_address = ''203.0.113.7'', region = None, user_agent = None,
              receiver_address = Some ''addr_safro1other'', success = True,
              transaction_hash = Some ''A1B2'', request_timestamp = t\<rparr>"

definition world_at_limit :: world where
  "world_at_limit = world0\<lparr>rows := [ip_row 99000000, ip_row 99500000, ip_row 99900000]\<rparr>"

definition no_ip_request :: request where
  "no_ip_request = \<lparr>req_method = ''POST'', x_forwarded_for = None, x_real_ip = None,
                     user_agent_header = Some ''curl/8.0'',
                     req_receiver = Inr (Val ''addr_safro1xyz'')\<rparr>"

text \<open>A request whose receiver has another prefix, a row of a rejected request, an outside
  whose first counting query is answered with a status that is not OK, and an outside whose
  chain rejects every broadcast with a sequence conflict.\<close>

definition wrong_prefix_request :: request where
  "wrong_prefix_request = sample_request\<lparr>req_receiver := Inr (Val ''cosmos1xyz'')\<rparr>"

definition failed_row :: user_request where
  "failed_row = \<lparr>ip_address = ''203.0.113.7'', region = None, user_agent = None,
                 receiver_address = Some ''addr_safro1xyz'', success = False,
                 transaction_hash = None, request_timestamp = 99950000\<rparr>"

definition failing_counts_env :: env where
  "failing_counts_env = healthy_env\<lparr>count_resp := (\<lambda>k. if k = 0 then CountNotOk else CountOkRows)\<rparr>"

definition conflict_env :: env where
  "conflict_env = healthy_env\<lparr>broadcast_resp :=
      (\<lambda>k. Inl (Error ''account sequence mismatch, expected 8, got 7: incorrect account sequence''))\<rparr>"

section \<open>The stabilizer\<close>

lemma getAccount_simps [simp]:
  "fst (getAccount e w) = getAccount_resp e (n_getAccount w)"
  "n_getAccount (snd (getAccount e w)) = Suc (n_getAccount w)"
  "now (snd (getAccount e w)) = now w + int (getAccount_ms e (n_getAccount w))"
  by (simp_all add: getAccount_def)

lemma sleep_simps [simp]:
  "n_getAccount (sleep ms w) = n_getAccount w"
  "now (sleep ms w) = now w + int ms"
  by (simp_all add: sleep_def)

lemma observation_Some:
  "observation e k = Some v \<Longrightarrow> \<exists>account. getAccount_resp e k = Inr account \<and> sequence_of account = v"
  by (auto simp: observation_def split: sum.splits)

declare waitForSequenceStable_loop.simps [simp del]

lemma stable_window:
  assumes "\<forall>k<m. observation e (n_getAccount w + k) = Some v"
    and "(lastSequence = v \<and> 1 \<le> stableCount \<and> stableCount \<le> 4 \<and> 6 \<le> stableCount + m)
         \<or> (now w - startTime < maxWaitMs \<and> 6 \<le> m)"
  shows "fst (waitForSequenceStable_loop e startTime maxWaitMs lastSequence stableCount w) = Inr v"
  using assms
proof (induction e startTime maxWaitMs lastSequence stableCount w arbitrary: m
        rule: waitForSequenceStable_loop.induct)
  case (1 e startTime maxWaitMs lastSequence stableCount w)
  show ?case
  proof (cases "now w - startTime < maxWaitMs")
    case False
    with "1.prems" show ?thesis
      by (simp add: waitForSequenceStable_loop.simps)
  next
    case True
    from "1.prems" have m2: "2 \<le> m" by auto
    then have "observation e (n_getAccount w + 0) = Some v" using "1.prems"(1) by (metis less_le_trans zero_less_numeral)
    then obtain account where acc: "getAccount_resp e (n_getAccount w) = Inr account" "sequence_of account = v"
      using observation_Some by fastforce
    from m2 have "observation e (n_getAccount w + 1) = Some v" using "1.prems"(1) by (metis less_le_trans one_less_numeral_iff semiring_norm(76))
    then obtain final where fin: "getAccount_resp e (Suc (n_getAccount w)) = Inr final" "sequence_of final = v"
      using observation_Some by fastforce
    have shift: "\<forall>k<m - 1. observation e (Suc (n_getAccount w) + k) = Some v"
      using "1.prems"(1) by (metis Suc_eq_plus1 add_Suc_shift less_diff_conv)
    show ?thesis
    proof (cases "v = lastSequence")
      case same: True
      show ?thesis
      proof (cases "requiredStableChecks \<le> stableCount + 1")
        case True
        then show ?thesis using \<open>now w - startTime < maxWaitMs\<close> acc fin same
          by (subst waitForSequenceStable_loop.simps) simp
      next
        case False
        have "fst (waitForSequenceStable_loop e startTime maxWaitMs lastSequence (stableCount + 1)
                 (sleep 800 (snd (getAccount e w)))) = Inr v"
          apply (rule "1.IH"(2)[where m = "m - 1"])
          using \<open>now w - startTime < maxWaitMs\<close> acc same False shift "1.prems"(2) m2
          by (auto simp: requiredStableChecks_def)
        then show ?thesis using \<open>now w - startTime < maxWaitMs\<close> acc same False
          by (subst waitForSequenceStable_loop.simps) simp
      qed
    next
      case diff: False
      have "fst (waitForSequenceStable_loop e startTime maxWaitMs (sequence_of account) 1
                 (sleep 800 (snd (getAccount e w)))) = Inr v"
        apply (rule "1.IH"(3)[where m = "m - 1"])
        using \<open>now w - startTime < maxWaitMs\<close> acc diff shift "1.prems"(2) m2
        by (auto simp: requiredStableChecks_def)
      then show ?thesis using \<open>now w - startTime < maxWaitMs\<close> acc diff
        by (subst waitForSequenceStable_loop.simps) simp
    qed
  qed
qed

lemma changing_loop:
  assumes "\<forall>k. \<exists>a b. observation e (n0 + k) = Some a \<and> observation e (n0 + Suc k) = Some b \<and> a \<noteq> b"
    and "n0 < n_getAccount w"
    and "observation e (n_getAccount w - 1) = Some lastSequence"
  shows "\<exists>x w'. waitForSequenceStable_loop e startTime maxWaitMs lastSequence stableCount w = (Inr x, w')
           \<and> observation e (n_getAccount w' - 1) = Some x
           \<and> n_getAccount w \<le> n_getAccount w' \<and> maxWaitMs \<le> now w' - startTime"
  using assms
proof (induction e startTime maxWaitMs lastSequence stableCount w
        rule: waitForSequenceStable_loop.induct)
  case (1 e startTime maxWaitMs lastSequence stableCount w)
  show ?case
  proof (cases "now w - startTime < maxWaitMs")
    case False
    with "1.prems" show ?thesis
      by (simp add: waitForSequenceStable_loop.simps)
  next
    case True
    obtain k where k: "n_getAccount w - 1 = n0 + k"
      using "1.prems"(2) by (metis Suc_diff_1 Suc_leI le_add_diff_inverse less_Suc_eq_le not_less_zero not_gr_zero)
    with "1.prems"(1) obtain a b where ab:
      "observation e (n0 + k) = Some a" "observation e (n0 + Suc k) = Some b" "a \<noteq> b"
      by blast
    have idx: "n0 + Suc k = n_getAccount w" using k "1.prems"(2) by simp
    have "a = lastSequence" using ab(1) k "1.prems"(3) by simp
    obtain account where acc: "getAccount_resp e (n_getAccount w) = Inr account" "sequence_of account = b"
      using observation_Some [OF ab(2)] idx by auto
    have ne: "sequence_of account \<noteq> lastSequence" using acc ab(3) \<open>a = lastSequence\<close> by simp
    have "\<exists>x w'. waitForSequenceStable_loop e startTime maxWaitMs (sequence_of account) 1
                 (sleep 800 (snd (getAccount e w))) = (Inr x, w')
           \<and> observation e (n_getAccount w' - 1) = Some x
           \<and> n_getAccount (sleep 800 (snd (getAccount e w))) \<le> n_getAccount w' \<and> maxWaitMs \<le> now w' - startTime"
      apply (rule "1.IH"(3))
      using True acc ne "1.prems" ab idx by auto
    then show ?thesis using True acc ne
      by (subst waitForSequenceStable_loop.simps) auto
  qed
qed

lemma loop_min_calls:
  assumes "waitForSequenceStable_loop e startTime maxWaitMs lastSequence stableCount w = (Inr x, w')"
  shows "maxWaitMs \<le> now w' - startTime \<or> n_getAccount w + (5 - stableCount) + 1 \<le> n_getAccount w'"
  using assms
proof (induction e startTime maxWaitMs lastSequence stableCount w
        rule: waitForSequenceStable_loop.induct)
  case (1 e startTime maxWaitMs lastSequence stableCount w)
  show ?case
  proof (cases "now w - startTime < maxWaitMs")
    case False
    with "1.prems" show ?thesis
      by (simp add: waitForSequenceStable_loop.simps)
  next
    case True
    note run = "1.prems" [unfolded waitForSequenceStable_loop.simps [of e startTime maxWaitMs lastSequence stableCount w]]
    from run True obtain account where acc: "getAccount_resp e (n_getAccount w) = Inr account"
      by (auto split: sum.splits)
    show ?thesis
    proof (cases "sequence_of account = lastSequence")
      case same: True
      show ?thesis
      proof (cases "requiredStableChecks \<le> stableCount + 1")
        case thr: True
        from run True acc same thr obtain final where
          fin: "getAccount_resp e (Suc (n_getAccount w)) = Inr final"
          by (auto split: sum.splits)
        show ?thesis
        proof (cases "sequence_of final \<noteq> sequence_of account")
          case True
          have "maxWaitMs \<le> now w' - startTime \<or>
                n_getAccount (snd (getAccount e (sleep 1000 (snd (getAccount e w))))) + (5 - 1) + 1 \<le> n_getAccount w'"
            apply (rule "1.IH"(1))
            using \<open>now w - startTime < maxWaitMs\<close> acc same thr fin True run by auto
          then show ?thesis by auto
        next
          case False
          with run \<open>now w - startTime < maxWaitMs\<close> acc same thr fin show ?thesis
            by (auto simp: requiredStableChecks_def)
        qed
      next
        case nthr: False
        have "maxWaitMs \<le> now w' - startTime \<or>
              n_getAccount (sleep 800 (snd (getAccount e w))) + (5 - (stableCount + 1)) + 1 \<le> n_getAccount w'"
          apply (rule "1.IH"(2))
          using True acc same nthr run by auto
        then show ?thesis using nthr by (auto simp: requiredStableChecks_def)
      qed
    next
      case diff: False
      have "maxWaitMs \<le> now w' - startTime \<or>
            n_getAccount (sleep 800 (snd (getAccount e w))) + (5 - 1) + 1 \<le> n_getAccount w'"
        apply (rule "1.IH"(3))
        using True acc diff run by auto
      then show ?thesis by auto
    qed
  qed
qed

text \<open>
  Claim C3. (a) From any point of the loop of \<^verbatim>\<open>waitForSequenceStable\<close> at which time
  is left, if the next six reads of the sequence (five polls and the confirmation read) all
  show \<open>v\<close>, the function returns \<open>v\<close>; in particular when they are its first six reads.
  (b) If every read shows a value other than the read before it, the function does not
  throw: it makes at least one read, runs until \<open>maxWaitMs\<close> has elapsed, and returns
  the value of its last read.
\<close>

theorem waitForSequenceStable_settles:
  "(now w - startTime < maxWaitMs \<and> (\<forall>k<6. observation e (n_getAccount w + k) = Some v)
      \<longrightarrow> fst (waitForSequenceStable_loop e startTime maxWaitMs lastSequence stableCount w) = Inr v)
   \<and> (0 < maxWaitMs \<and> (\<forall>k<6. observation e (n_getAccount w + k) = Some v)
      \<longrightarrow> fst (waitForSequenceStable e expectedSequence maxWaitMs w) = Inr v)
   \<and> (0 < maxWaitMs \<and>
        (\<forall>k. \<exists>a b. observation e (n_getAccount w + k) = Some a
                  \<and> observation e (n_getAccount w + Suc k) = Some b \<and> a \<noteq> b)
      \<longrightarrow> (\<exists>x w'. waitForSequenceStable e expectedSequence maxWaitMs w = (Inr x, w')
             \<and> n_getAccount w < n_getAccount w'
             \<and> observation e (n_getAccount w' - 1) = Some x
             \<and> maxWaitMs \<le> now w' - now w))"
proof (intro conjI impI)
  assume "now w - startTime < maxWaitMs \<and> (\<forall>k<6. observation e (n_getAccount w + k) = Some v)"
  then show "fst (waitForSequenceStable_loop e startTime maxWaitMs lastSequence stableCount w) = Inr v"
    using stable_window [of 6 e w v lastSequence stableCount startTime maxWaitMs] by simp
next
  assume "0 < maxWaitMs \<and> (\<forall>k<6. observation e (n_getAccount w + k) = Some v)"
  then show "fst (waitForSequenceStable e expectedSequence maxWaitMs w) = Inr v"
    unfolding waitForSequenceStable_def
    using stable_window [of 6 e w v expectedSequence 0 "now w" maxWaitMs] by simp
next
  assume h: "0 < maxWaitMs \<and>
        (\<forall>k. \<exists>a b. observation e (n_getAccount w + k) = Some a
                  \<and> observation e (n_getAccount w + Suc k) = Some b \<and> a \<noteq> b)"
  then obtain a where a: "observation e (n_getAccount w) = Some a"
    by (metis add.right_neutral)
  then obtain account where acc: "getAccount_resp e (n_getAccount w) = Inr account"
      "sequence_of account = a"
    using observation_Some by blast
  let ?w1 = "sleep 800 (snd (getAccount e w))"
  have step: "waitForSequenceStable e expectedSequence maxWaitMs w
            = waitForSequenceStable_loop e (now w) maxWaitMs a 1 ?w1"
    unfolding waitForSequenceStable_def
    using h acc
    by (subst waitForSequenceStable_loop.simps) (simp add: requiredStableChecks_def)
  have "\<exists>x w'. waitForSequenceStable_loop e (now w) maxWaitMs a 1 ?w1 = (Inr x, w')
           \<and> observation e (n_getAccount w' - 1) = Some x
           \<and> n_getAccount ?w1 \<le> n_getAccount w' \<and> maxWaitMs \<le> now w' - now w"
    by (rule changing_loop [where ?n0.0 = "n_getAccount w"]) (use h a in auto)
  then show "\<exists>x w'. waitForSequenceStable e expectedSequence maxWaitMs w = (Inr x, w')
             \<and> n_getAccount w < n_getAccount w'
             \<and> observation e (n_getAccount w' - 1) = Some x
             \<and> maxWaitMs \<le> now w' - now w"
    unfolding step by auto
qed

theorem waitForSequenceStable_settles_witness:
  "fst (waitForSequenceStable_loop healthy_env 100000000 10000 3 2 world0) = Inr 7
   \<and> fst (waitForSequenceStable healthy_env 0 10000 world0) = Inr 7
   \<and> (\<exists>x w'. waitForSequenceStable counting_env 0 10000 world0 = (Inr x, w')
          \<and> n_getAccount world0 < n_getAccount w'
          \<and> observation counting_env (n_getAccount w' - 1) = Some x
          \<and> 10000 \<le> now w' - now world0)"
proof -
  have h: "\<forall>k<6. observation healthy_env (n_getAccount world0 + k) = Some 7"
    by (simp add: observation_def healthy_env_def sequence_of_def)
  have c: "\<forall>k. \<exists>a b. observation counting_env (n_getAccount world0 + k) = Some a
                  \<and> observation counting_env (n_getAccount world0 + Suc k) = Some b \<and> a \<noteq> b"
    by (simp add: observation_def counting_env_def sequence_of_def)
  have t: "now world0 - 100000000 < 10000" by (simp add: world0_def)
  show ?thesis
    using waitForSequenceStable_settles [where w = world0 and e = healthy_env and v = 7
        and startTime = 100000000 and maxWaitMs = 10000 and lastSequence = 3 and stableCount = 2]
      waitForSequenceStable_settles [where w = world0 and e = healthy_env and v = 7
        and maxWaitMs = 10000 and expectedSequence = 0]
      waitForSequenceStable_settles [where w = world0 and e = counting_env
        and maxWaitMs = 10000 and expectedSequence = 0]
      h c t
    by simp
qed

text \<open>
  Claim C4. When a poll equals \<open>lastSequence\<close> and brings \<open>stableCount\<close> to the threshold
  of 5, exactly one more read is made, at least 1000 ms later. If it shows the same
  sequence, that sequence is returned. If it differs, nothing is returned at this point:
  the loop goes on with \<open>lastSequence\<close> set to the new value and \<open>stableCount = 1\<close>, and
  from there it can only return after five further reads or when the time is up.
\<close>

theorem waitForSequenceStable_confirmation:
  assumes "now w - startTime < maxWaitMs"
    and "getAccount_resp e (n_getAccount w) = Inr account"
    and "sequence_of account = lastSequence"
    and "requiredStableChecks \<le> stableCount + 1"
    and "getAccount_resp e (Suc (n_getAccount w)) = Inr finalAccount"
    and "w2 = snd (getAccount e (sleep 1000 (snd (getAccount e w))))"
  shows "n_getAccount w2 = n_getAccount w + 2
    \<and> now w + 1000 \<le> now w2
    \<and> (sequence_of finalAccount = lastSequence \<longrightarrow>
         waitForSequenceStable_loop e startTime maxWaitMs lastSequence stableCount w
           = (Inr lastSequence, w2))
    \<and> (sequence_of finalAccount \<noteq> lastSequence \<longrightarrow>
         waitForSequenceStable_loop e startTime maxWaitMs lastSequence stableCount w
           = waitForSequenceStable_loop e startTime maxWaitMs (sequence_of finalAccount) 1 w2
         \<and> (\<forall>x w'. waitForSequenceStable_loop e startTime maxWaitMs lastSequence stableCount w
                     = (Inr x, w')
               \<longrightarrow> maxWaitMs \<le> now w' - startTime \<or> n_getAccount w2 + 5 \<le> n_getAccount w'))"
proof -
  have eq: "sequence_of finalAccount \<noteq> lastSequence \<Longrightarrow>
         waitForSequenceStable_loop e startTime maxWaitMs lastSequence stableCount w
           = waitForSequenceStable_loop e startTime maxWaitMs (sequence_of finalAccount) 1 w2"
    using assms by (subst waitForSequenceStable_loop.simps) simp
  have ret: "sequence_of finalAccount = lastSequence \<Longrightarrow>
         waitForSequenceStable_loop e startTime maxWaitMs lastSequence stableCount w
           = (Inr lastSequence, w2)"
    using assms by (subst waitForSequenceStable_loop.simps) simp
  have later: "maxWaitMs \<le> now w' - startTime \<or> n_getAccount w2 + 5 \<le> n_getAccount w'"
    if "sequence_of finalAccount \<noteq> lastSequence"
      and "waitForSequenceStable_loop e startTime maxWaitMs lastSequence stableCount w = (Inr x, w')"
    for x w'
    using loop_min_calls [of e startTime maxWaitMs "sequence_of finalAccount" 1 w2 x w'] that eq
    by auto
  have "n_getAccount w2 = n_getAccount w + 2" "now w + 1000 \<le> now w2"
    using assms(6) by simp_all
  with eq ret later show ?thesis by blast
qed

theorem waitForSequenceStable_confirmation_witness:
  "waitForSequenceStable_loop flip_env 100000000 10000 7 4 (world0\<lparr>n_getAccount := 4\<rparr>)
     = waitForSequenceStable_loop flip_env 100000000 10000 9 1
         (world0\<lparr>n_getAccount := 6, now := 100001000\<rparr>)
   \<and> fst (waitForSequenceStable_loop flip_env 100000000 10000 7 4 (world0\<lparr>n_getAccount := 4\<rparr>))
       = Inr 9"
proof -
  let ?w = "world0\<lparr>n_getAccount := 4\<rparr>"
  have w2: "world0\<lparr>n_getAccount := 6, now := 100001000\<rparr>
            = snd (getAccount flip_env (sleep 1000 (snd (getAccount flip_env ?w))))"
    by (simp add: getAccount_def sleep_def flip_env_def healthy_env_def world0_def)
  have "waitForSequenceStable_loop flip_env 100000000 10000 7 4 ?w
     = waitForSequenceStable_loop flip_env 100000000 10000 9 1
         (world0\<lparr>n_getAccount := 6, now := 100001000\<rparr>)"
    using waitForSequenceStable_confirmation [where w = ?w and startTime = 100000000
        and maxWaitMs = 10000 and e = flip_env and account = "Some 7" and lastSequence = 7
        and stableCount = 4 and finalAccount = "Some 9", OF _ _ _ _ _ w2]
    by (simp add: flip_env_def healthy_env_def world0_def sequence_of_def requiredStableChecks_def)
  moreover have "fst (waitForSequenceStable_loop flip_env 100000000 10000 7 4 ?w) = Inr 9"
    by code_simp
  ultimately show ?thesis by simp
qed

section \<open>Large integers in the response\<close>

declare SerializeJSONProperty.simps [simp del]
declare nat_toString.simps [simp del]

lemma digit_value_digit_char: "d < 10 \<Longrightarrow> digit_value (digit_char d) = Some d"
  by (simp add: digit_value_def digit_char_def)

lemma decimal_nat_snoc:
  "d < 10 \<Longrightarrow> decimal_nat acc (xs @ [digit_char d]) = map_option (\<lambda>m. 10 * m + d) (decimal_nat acc xs)"
  by (induction xs arbitrary: acc) (auto simp: digit_value_digit_char split: option.splits)

lemma decimal_nat_toString: "decimal_nat 0 (nat_toString n) = Some n"
proof (induction n rule: nat_toString.induct)
  case (1 n)
  show ?case
  proof (cases "n < 10")
    case True
    then show ?thesis by (subst nat_toString.simps) (simp add: digit_value_digit_char)
  next
    case False
    with 1 have "decimal_nat 0 (nat_toString (n div 10)) = Some (n div 10)" by simp
    with False show ?thesis
      by (subst nat_toString.simps) (simp add: decimal_nat_snoc)
  qed
qed

lemma nat_toString_not_Nil: "nat_toString n \<noteq> []"
  by (subst nat_toString.simps) simp

lemma digit_char_no_minus: "d < 10 \<Longrightarrow> digit_char d \<noteq> CHR ''-''"
proof
  assume d: "d < 10" and "digit_char d = CHR ''-''"
  then have "(of_char (digit_char d) :: nat) = of_char CHR ''-''" by simp
  with d show False by (simp add: digit_char_def)
qed

lemma nat_toString_no_minus: "hd (nat_toString n) \<noteq> CHR ''-''"
proof (induction n rule: nat_toString.induct)
  case (1 n)
  show ?case
  proof (cases "n < 10")
    case True
    then show ?thesis by (subst nat_toString.simps) (simp add: digit_char_no_minus)
  next
    case False
    with 1 have "hd (nat_toString (n div 10)) \<noteq> CHR ''-''" by simp
    with False show ?thesis
      by (subst nat_toString.simps) (simp add: nat_toString_not_Nil)
  qed
qed

lemma decimal_value_int_toString: "decimal_value (int_toString i) = Some i"
proof (cases "i < 0")
  case True
  then show ?thesis
    by (simp add: decimal_value_def int_toString_def decimal_nat_toString nat_toString_not_Nil)
next
  case False
  obtain c cs where s: "nat_toString (nat i) = c # cs"
    using nat_toString_not_Nil by (cases "nat_toString (nat i)") auto
  with nat_toString_no_minus [of "nat i"] have "c \<noteq> CHR ''-''" by simp
  with False s decimal_nat_toString [of "nat i"] show ?thesis
    by (simp add: decimal_value_def int_toString_def)
qed

lemma collect_cong:
  "(\<And>x. x \<in> set xs \<Longrightarrow> f x = g x) \<Longrightarrow> collect (map f xs) = collect (map g xs)"
proof (induction xs)
  case Nil
  show ?case by simp
next
  case (Cons a xs)
  then have "f a = g a" "collect (map f xs) = collect (map g xs)" by auto
  then show ?case by (cases "g a") auto
qed

lemma Serialize_replaced:
  "SerializeJSONProperty True v = SerializeJSONProperty False (bigints_as_strings v)"
proof (induction v)
  case (VArray xs)
  have "collect (map (SerializeJSONProperty True) xs)
        = collect (map (\<lambda>x. SerializeJSONProperty False (bigints_as_strings x)) xs)"
    by (rule collect_cong) (simp add: VArray)
  then show ?case
    by (simp add: SerializeJSONProperty.simps [of _ "VArray _"] bigint_replacer_def comp_def)
next
  case (VObject ps)
  have "collect (map (\<lambda>p. case SerializeJSONProperty True (snd p) of
                             Inl err \<Rightarrow> Inl err | Inr j \<Rightarrow> Inr (fst p, j)) ps)
        = collect (map (\<lambda>p. case SerializeJSONProperty False (bigints_as_strings (snd p)) of
                             Inl err \<Rightarrow> Inl err | Inr j \<Rightarrow> Inr (fst p, j)) ps)"
  proof (rule collect_cong)
    fix p assume "p \<in> set ps"
    moreover have "snd p \<in> Basic_BNFs.snds p" by (cases p) simp
    ultimately have "SerializeJSONProperty True (snd p) = SerializeJSONProperty False (bigints_as_strings (snd p))"
      by (rule VObject)
    then show "(case SerializeJSONProperty True (snd p) of
                             Inl err \<Rightarrow> Inl err | Inr j \<Rightarrow> Inr (fst p, j))
        = (case SerializeJSONProperty False (bigints_as_strings (snd p)) of
                             Inl err \<Rightarrow> Inl err | Inr j \<Rightarrow> Inr (fst p, j))" by simp
  qed
  then show ?case
    by (simp add: SerializeJSONProperty.simps [of _ "VObject _"] bigint_replacer_def comp_def
          cong: sum.case_cong)
qed (simp_all add: SerializeJSONProperty.simps bigint_replacer_def)

lemma collect_all_Inr:
  "(\<And>x. x \<in> set rs \<Longrightarrow> \<exists>y. x = Inr y) \<Longrightarrow> \<exists>ys. collect rs = Inr ys"
proof (induction rs)
  case Nil
  show ?case by simp
next
  case (Cons r rs)
  then obtain y where "r = Inr y" by auto
  moreover from Cons obtain ys where "collect rs = Inr ys" by auto
  ultimately show ?case by simp
qed

lemma Serialize_total: "\<exists>text0. SerializeJSONProperty True v = Inr text0"
proof (induction v)
  case (VArray xs)
  have "\<exists>ys. collect (map (SerializeJSONProperty True) xs) = Inr ys"
    by (rule collect_all_Inr) (use VArray in auto)
  then show ?case
    by (auto simp: SerializeJSONProperty.simps [of _ "VArray _"] bigint_replacer_def)
next
  case (VObject ps)
  have "\<exists>ys. collect (map (\<lambda>p. case SerializeJSONProperty True (snd p) of
                             Inl err \<Rightarrow> Inl err | Inr j \<Rightarrow> Inr (fst p, j)) ps) = Inr ys"
  proof (rule collect_all_Inr)
    fix x assume "x \<in> set (map (\<lambda>p. case SerializeJSONProperty True (snd p) of
                             Inl err \<Rightarrow> Inl err | Inr j \<Rightarrow> Inr (fst p, j)) ps)"
    then obtain p where p: "p \<in> set ps" "x = (case SerializeJSONProperty True (snd p) of
                             Inl err \<Rightarrow> Inl err | Inr j \<Rightarrow> Inr (fst p, j))" by auto
    have "snd p \<in> Basic_BNFs.snds p" by (cases p) simp
    with p(1) have "\<exists>j. SerializeJSONProperty True (snd p) = Inr j" by (rule VObject)
    then obtain j where "SerializeJSONProperty True (snd p) = Inr j" ..
    with p(2) show "\<exists>y. x = Inr y" by simp
  qed
  then show ?case
    by (auto simp: SerializeJSONProperty.simps [of _ "VObject _"] bigint_replacer_def)
qed (simp_all add: SerializeJSONProperty.simps bigint_replacer_def)

lemma Serialize_scalars [simp]:
  "SerializeJSONProperty r VUndefined = Inr None"
  "SerializeJSONProperty r VNull = Inr (Some JNull)"
  "SerializeJSONProperty r (VBool b) = Inr (Some (JBool b))"
  "SerializeJSONProperty r (VNumber n) = Inr (Some (JNumber n))"
  "SerializeJSONProperty r (VString s) = Inr (Some (JString s))"
  "SerializeJSONProperty True (VBigInt n) = Inr (Some (JString (int_toString n)))"
  "SerializeJSONProperty False (VBigInt n) = Inl (Error ''Do not know how to serialize a BigInt'')"
  by (simp_all add: SerializeJSONProperty.simps bigint_replacer_def)

lemma Serialize_coin [simp]: "SerializeJSONProperty r (coin_object c) = Inr (Some (coin_json c))"
  by (simp add: SerializeJSONProperty.simps [of _ "VObject _"] coin_object_def coin_json_def
        bigint_replacer_def)

lemma Serialize_coins [simp]:
  "SerializeJSONProperty r (VArray (map coin_object cs)) = Inr (Some (JArray (map coin_json cs)))"
proof -
  have "collect (map (SerializeJSONProperty r) (map coin_object cs))
        = Inr (map (\<lambda>c. Some (coin_json c)) cs)"
    by (induction cs) simp_all
  then show ?thesis
    by (simp add: SerializeJSONProperty.simps [of _ "VArray _"] bigint_replacer_def comp_def)
qed

lemma Serialize_result_object:
  "SerializeJSONProperty True (result_object r) = Inr (Some (result_json r))"
  unfolding result_object_def result_json_def
  by (subst SerializeJSONProperty.simps)
     (simp add: bigint_replacer_def jsnum_value_def column_value_def optional_string_def
           split: jsnum.splits column.splits option.splits)

lemma JSONStringifyWithBigInt_result [simp]:
  "JSONStringifyWithBigInt (result_object r) = Inr (Some (result_json r))"
  by (simp add: JSONStringifyWithBigInt_def Serialize_result_object)


section \<open>What the dispatcher leaves alone\<close>

text \<open>The dispatcher neither reads nor writes the table \<^verbatim>\<open>user_requests\<close>: run in a world
  whose rows and insert counter are replaced, it returns the same result and leaves the
  replaced rows and counter as they are.\<close>

lemma set_store_fields [simp]:
  "now (set_store rs k w) = now w"
  "n_getAccount (set_store rs k w) = n_getAccount w"
  "n_connect (set_store rs k w) = n_connect w"
  "n_broadcast (set_store rs k w) = n_broadcast w"
  "n_chainId (set_store rs k w) = n_chainId w"
  "n_balances (set_store rs k w) = n_balances w"
  "n_wallet (set_store rs k w) = n_wallet w"
  "n_config (set_store rs k w) = n_config w"
  "n_count (set_store rs k w) = n_count w"
  "n_region (set_store rs k w) = n_region w"
  "rows (set_store rs k w) = rs"
  "n_insert (set_store rs k w) = k"
  by (simp_all add: set_store_def)

lemma set_store_same [simp]: "set_store (rows w) (n_insert w) w = w"
  by (simp add: set_store_def)

lemma getAccount_store:
  "getAccount e (set_store rs k w) = (fst (getAccount e w), set_store rs k (snd (getAccount e w)))"
  by (simp add: getAccount_def set_store_def)

lemma sleep_store: "sleep ms (set_store rs k w) = set_store rs k (sleep ms w)"
  by (simp add: sleep_def set_store_def)

lemma stable_loop_store:
  "waitForSequenceStable_loop e s m l c (set_store rs k w)
   = (fst (waitForSequenceStable_loop e s m l c w),
      set_store rs k (snd (waitForSequenceStable_loop e s m l c w)))"
proof (induction e s m l c w rule: waitForSequenceStable_loop.induct)
  case (1 e s m l c w)
  show ?case
    apply (subst waitForSequenceStable_loop.simps)
    apply (simp only: waitForSequenceStable_loop.simps [of e s m l c w])
    using 1
    by (auto simp: getAccount_store sleep_store split: sum.splits)
qed

lemma update_loop_store:
  "waitForSequenceUpdate_loop e s m t (set_store rs k w)
   = (fst (waitForSequenceUpdate_loop e s m t w),
      set_store rs k (snd (waitForSequenceUpdate_loop e s m t w)))"
proof (induction e s m t w rule: waitForSequenceUpdate_loop.induct)
  case (1 e s m t w)
  show ?case
    apply (subst waitForSequenceUpdate_loop.simps)
    apply (simp only: waitForSequenceUpdate_loop.simps [of e s m t w])
    using 1
    by (auto simp: getAccount_store sleep_store split: sum.splits)
qed

declare waitForSequenceUpdate_loop.simps [simp del]

lemma chain_calls_store:
  "connectWithSigner e rpc (set_store rs k w)
     = (fst (connectWithSigner e rpc w), set_store rs k (snd (connectWithSigner e rpc w)))"
  "signAndBroadcast e (set_store rs k w)
     = (fst (signAndBroadcast e w), set_store rs k (snd (signAndBroadcast e w)))"
  "getChainId e (set_store rs k w) = (fst (getChainId e w), set_store rs k (snd (getChainId e w)))"
  "getAllBalances e a (set_store rs k w)
     = (fst (getAllBalances e a w), set_store rs k (snd (getAllBalances e a w)))"
  "senderAccount e (set_store rs k w)
     = (fst (senderAccount e w), set_store rs k (snd (senderAccount e w)))"
  by (simp_all add: connectWithSigner_def signAndBroadcast_def getChainId_def getAllBalances_def
        senderAccount_def set_store_def)

lemma stable_store:
  "waitForSequenceStable e x m (set_store rs k w)
   = (fst (waitForSequenceStable e x m w), set_store rs k (snd (waitForSequenceStable e x m w)))"
  by (simp add: waitForSequenceStable_def stable_loop_store)

lemma update_store:
  "waitForSequenceUpdate e x m (set_store rs k w)
   = (fst (waitForSequenceUpdate e x m w), set_store rs k (snd (waitForSequenceUpdate e x m w)))"
  by (simp add: waitForSequenceUpdate_def update_loop_store)

lemma attempt_store:
  "attempt e sa ra am me ex (set_store rs k w)
   = (fst (attempt e sa ra am me ex w), set_store rs k (snd (attempt e sa ra am me ex w)))"
  unfolding attempt_def
  by (simp add: stable_store update_store getAccount_store sleep_store chain_calls_store
        case_prod_beta split: sum.splits)

lemma retry_loop_store:
  "retry_loop e rpc sa ra am me ex n t (set_store rs k w)
   = (fst (retry_loop e rpc sa ra am me ex n t w),
      set_store rs k (snd (retry_loop e rpc sa ra am me ex n t w)))"
proof (induction n arbitrary: t w)
  case 0
  show ?case by simp
next
  case (Suc n)
  show ?case
    by (simp add: chain_calls_store attempt_store sleep_store Suc case_prod_beta
          split: sum.splits option.splits)
qed

lemma fetchFaucetConfig_store:
  "fetchFaucetConfig e (set_store rs k w)
   = (fst (fetchFaucetConfig e w), set_store rs k (snd (fetchFaucetConfig e w)))"
  by (simp add: fetchFaucetConfig_def set_store_def split: config_fetch.splits list.splits)

lemma sendTokens_store:
  "sendTokens e ra (set_store rs k w)
   = (fst (sendTokens e ra w), set_store rs k (snd (sendTokens e ra w)))"
  unfolding sendTokens_def
  by (simp add: fetchFaucetConfig_store chain_calls_store retry_loop_store case_prod_beta
        split: sum.splits)

lemma fetchRegion_store:
  "fetchRegion e ip (set_store rs k w)
   = (fst (fetchRegion e ip w), set_store rs k (snd (fetchRegion e ip w)))"
  by (simp add: fetchRegion_def set_store_def split: region_fetch.splits)

lemma sendTokens_frame:
  "rows (snd (sendTokens e ra w)) = rows w" "n_insert (snd (sendTokens e ra w)) = n_insert w"
  using sendTokens_store [of e ra "rows w" "n_insert w" w]
  by (metis set_store_same set_store_fields(11) snd_conv, metis set_store_same set_store_fields(12) snd_conv)

section \<open>The handler\<close>

lemma sample_request_ip: "request_ip sample_request = ''203.0.113.7''"
  by code_simp

lemma attempt_success: "fst (attempt e sa ra am me ex w) = Inr r \<Longrightarrow> pr_success r"
  unfolding attempt_def
  by (auto simp: case_prod_beta split: sum.splits if_splits)

lemma retry_loop_success:
  "fst (retry_loop e rpc sa ra am me ex n t w) = Inr r \<Longrightarrow> pr_success r"
proof (induction n arbitrary: t w)
  case 0
  then show ?case by simp
next
  case (Suc n)
  then show ?case
    by (auto simp: case_prod_beta attempt_success split: sum.splits option.splits)
qed

lemma sendTokens_success: "fst (sendTokens e ra w) = Inr r \<Longrightarrow> pr_success r"
  unfolding sendTokens_def
  by (auto simp: case_prod_beta split: sum.splits if_splits dest: retry_loop_success)

lemma fetchRegion_frame:
  "rows (snd (fetchRegion e ip w)) = rows w" "n_insert (snd (fetchRegion e ip w)) = n_insert w"
  by (simp_all add: fetchRegion_def split: region_fetch.splits)

lemma fetchFaucetConfig_frame:
  "rows (snd (fetchFaucetConfig e w)) = rows w"
  "n_insert (snd (fetchFaucetConfig e w)) = n_insert w"
  "now (snd (fetchFaucetConfig e w)) = now w"
  by (simp_all add: fetchFaucetConfig_def split: config_fetch.splits list.splits)

lemma count_frame:
  "rows (snd (getRequestCountByIp e ip t w)) = rows w"
  "n_insert (snd (getRequestCountByIp e ip t w)) = n_insert w"
  "rows (snd (getRequestCountByAddress e a t w)) = rows w"
  "n_insert (snd (getRequestCountByAddress e a t w)) = n_insert w"
  by (simp_all add: getRequestCountByIp_def getRequestCountByAddress_def split: count_fetch.splits)

lemma insert_logged:
  "insert_resp e (n_insert w) = InsertOk \<Longrightarrow>
   fst (insertUserRequest e ip rg ua rc ok h w) = None
   \<and> logged_once w (snd (insertUserRequest e ip rg ua rc ok h w)) ip ok"
  by (simp add: insertUserRequest_def logged_once_def)

lemma serve_checked_audit:
  assumes ok: "insert_resp e (n_insert w) = InsertOk"
  shows "case fst (serve_checked e ip ua rc P L a b w) of
           Inl x \<Rightarrow> rows (snd (serve_checked e ip ua rc P L a b w)) = rows w
                    \<and> n_insert (snd (serve_checked e ip ua rc P L a b w)) = n_insert w
         | Inr resp \<Rightarrow> logged_once w (snd (serve_checked e ip ua rc P L a b w)) ip (status resp = 200)"
  using ok unfolding serve_checked_def serve_dispatch_def
  by (auto simp: case_prod_beta log_failed_then_def insertUserRequest_def logged_once_def
        sendTokens_frame fetchRegion_frame
      dest: sendTokens_success split: sum.splits option.splits)

lemma serve_try_audit:
  assumes ok: "insert_resp e (n_insert w) = InsertOk"
    and ip: "request_ip req \<noteq> [] \<or> isl (req_receiver req) \<or> isl (fst (fetchFaucetConfig e w))"
  shows "case fst (serve_try e req w) of
           Inl x \<Rightarrow> rows (snd (serve_try e req w)) = rows w
                    \<and> n_insert (snd (serve_try e req w)) = n_insert w
         | Inr resp \<Rightarrow> logged_once w (snd (serve_try e req w)) (request_ip req) (status resp = 200)"
proof (cases "req_receiver req")
  case (Inl err)
  then show ?thesis by (simp add: serve_try_def)
next
  case (Inr receiver)
  show ?thesis
  proof (cases "fst (fetchFaucetConfig e w)")
    case (Inl err)
    with Inr show ?thesis
      by (simp add: serve_try_def case_prod_beta fetchFaucetConfig_frame)
  next
    case cfg: (Inr config)
    let ?w1 = "snd (fetchFaucetConfig e w)"
    let ?t = "now ?w1 - 24 * 60 * 60 * 1000"
    let ?w2 = "snd (getRequestCountByIp e (request_ip req) ?t ?w1)"
    let ?w3 = "snd (getRequestCountByAddress e receiver ?t ?w2)"
    have f3: "rows ?w3 = rows w" "n_insert ?w3 = n_insert w"
      by (simp_all add: count_frame fetchFaucetConfig_frame)
    from ip Inr cfg have ne: "request_ip req \<noteq> []" by auto
    show ?thesis
    proof (cases "fst (getRequestCountByIp e (request_ip req) ?t ?w1)")
      case (Inl err)
      with Inr cfg ne show ?thesis
        by (simp add: serve_try_def case_prod_beta count_frame fetchFaucetConfig_frame)
    next
      case ipc: (Inr ipRequestCount)
      show ?thesis
      proof (cases "fst (getRequestCountByAddress e receiver ?t ?w2)")
        case (Inl err)
        with Inr cfg ne ipc show ?thesis
          by (simp add: serve_try_def case_prod_beta count_frame fetchFaucetConfig_frame)
      next
        case adc: (Inr addressRequestCount)
        let ?c = "serve_checked e (request_ip req) (request_user_agent req) receiver
                    (prefix_col config) (requests_limit config) ipRequestCount addressRequestCount ?w3"
        have eq: "serve_try e req w =
                 (case ?c of (Inl (err, region0), w4) \<Rightarrow> (Inl (err, receiver, region0), w4)
                           | (Inr resp, w4) \<Rightarrow> (Inr resp, w4))"
          using Inr cfg ne ipc adc by (simp add: serve_try_def case_prod_beta)
        have ok3: "insert_resp e (n_insert ?w3) = InsertOk" using ok f3 by simp
        from serve_checked_audit [OF ok3, of "request_ip req" "request_user_agent req" receiver
            "prefix_col config" "requests_limit config" ipRequestCount addressRequestCount]
        show ?thesis
          unfolding eq using f3
          by (auto simp: case_prod_beta logged_once_def split: sum.splits)
      qed
    qed
  qed
qed

lemma serve_audit:
  assumes "req_method req \<noteq> ''OPTIONS''"
    and "request_ip req \<noteq> [] \<or> isl (req_receiver req) \<or> isl (fst (fetchFaucetConfig e w))"
    and ok: "insert_resp e (n_insert w) = InsertOk"
  shows "logged_once w (snd (serve e req w)) (request_ip req) (status (fst (serve e req w)) = 200)"
proof (cases "fst (serve_try e req w)")
  case (Inr resp)
  with serve_try_audit [OF ok assms(2)] assms(1) show ?thesis
    by (simp add: serve_def case_prod_beta)
next
  case (Inl x)
  obtain err receiver region0 where x: "x = (err, receiver, region0)" by (cases x) auto
  let ?w1 = "snd (serve_try e req w)"
  from serve_try_audit [OF ok assms(2)] Inl
  have f: "rows ?w1 = rows w" "n_insert ?w1 = n_insert w" by simp_all
  have "logged_once ?w1 (snd (insertUserRequest e (request_ip req) region0 (request_user_agent req)
                     receiver False None ?w1)) (request_ip req) False"
    using insert_logged [of e ?w1] ok f by simp
  then have "logged_once w (snd (insertUserRequest e (request_ip req) region0 (request_user_agent req)
                     receiver False None ?w1)) (request_ip req) False"
    using f by (simp add: logged_once_def)
  with Inl x assms(1) show ?thesis
    by (simp add: serve_def case_prod_beta)
qed

lemma serve_no_ip:
  assumes "req_method req \<noteq> ''OPTIONS''"
    and "request_ip req = []" "req_receiver req = Inr receiver"
    and "fst (fetchFaucetConfig e w) = Inr config"
  shows "fst (serve e req w) = \<lparr>status = 400, body = Some (error_body ''IP address could not be determined'')\<rparr>"
    and "rows (snd (serve e req w)) = rows w" and "n_insert (snd (serve e req w)) = n_insert w"
  using assms by (simp_all add: serve_def serve_try_def case_prod_beta fetchFaucetConfig_frame)

lemma serve_to_checked:
  assumes "req_method req \<noteq> ''OPTIONS''" "req_receiver req = Inr receiver"
    and "fetchFaucetConfig e w = (Inr config, w1)" "request_ip req \<noteq> []"
    and "getRequestCountByIp e (request_ip req) (now w1 - 24 * 60 * 60 * 1000) w1 = (Inr ipCount, w2)"
    and "getRequestCountByAddress e receiver (now w1 - 24 * 60 * 60 * 1000) w2 = (Inr addrCount, w3)"
  shows "serve e req w =
     (case serve_checked e (request_ip req) (request_user_agent req) receiver (prefix_col config)
             (requests_limit config) ipCount addrCount w3 of
        (Inr resp, w4) \<Rightarrow> (resp, w4)
      | (Inl (err, region0), w4) \<Rightarrow>
          (\<lparr>status = 500, body = Some (error_body (message err))\<rparr>,
           snd (insertUserRequest e (request_ip req) region0 (request_user_agent req)
                  receiver False None w4)))"
  using assms
  by (simp add: serve_def serve_try_def case_prod_beta split: sum.splits)

lemma log_failed_then_no_throw:
  "\<forall>err. insert_resp e (n_insert w) \<noteq> InsertThrows err \<Longrightarrow>
   fst (log_failed_then e ip ua rc resp w) = Inr resp"
  by (simp add: log_failed_then_def insertUserRequest_def split: insert_fetch.splits)

lemma serve_checked_status:
  "fst (serve_checked e ip ua rc P L a b w) = Inr resp \<Longrightarrow> \<not> L \<le> int a \<Longrightarrow> \<not> L \<le> int b
   \<Longrightarrow> status resp = 400 \<or> status resp = 200"
  unfolding serve_checked_def serve_dispatch_def
  by (auto simp: case_prod_beta log_failed_then_def insertUserRequest_def
        split: sum.splits option.splits insert_fetch.splits if_splits)



text \<open>
  Claim C2, as the code has it. With a table that accepts the insert, a request other
  than \<^verbatim>\<open>OPTIONS\<close> whose IP is known, or whose body or configuration cannot be read,
  appends exactly one row before its response is returned, on every path: the row carries
  the IP, and \<open>success\<close> exactly when the response is 200. A request without an IP, whose
  body and configuration can be read, is answered 400 and appends nothing.
\<close>

theorem serve_logs_once:
  assumes "req_method req \<noteq> ''OPTIONS''"
    and "insert_resp e (n_insert w) = InsertOk"
  shows "(request_ip req \<noteq> [] \<or> isl (req_receiver req) \<or> isl (fst (fetchFaucetConfig e w)) \<longrightarrow>
           (\<exists>r. rows (snd (serve e req w)) = rows w @ [r]
               \<and> n_insert (snd (serve e req w)) = Suc (n_insert w)
               \<and> ip_address r = request_ip req
               \<and> success r = (status (fst (serve e req w)) = 200)))
       \<and> (request_ip req = [] \<and> \<not> isl (req_receiver req) \<and> \<not> isl (fst (fetchFaucetConfig e w)) \<longrightarrow>
           status (fst (serve e req w)) = 400
           \<and> rows (snd (serve e req w)) = rows w
           \<and> n_insert (snd (serve e req w)) = n_insert w)"
proof (intro conjI impI)
  assume "request_ip req \<noteq> [] \<or> isl (req_receiver req) \<or> isl (fst (fetchFaucetConfig e w))"
  from serve_audit [OF assms(1) this assms(2)]
  show "\<exists>r. rows (snd (serve e req w)) = rows w @ [r]
               \<and> n_insert (snd (serve e req w)) = Suc (n_insert w)
               \<and> ip_address r = request_ip req
               \<and> success r = (status (fst (serve e req w)) = 200)"
    by (simp add: logged_once_def)
next
  assume h: "request_ip req = [] \<and> \<not> isl (req_receiver req) \<and> \<not> isl (fst (fetchFaucetConfig e w))"
  then obtain receiver config where
    "req_receiver req = Inr receiver" "fst (fetchFaucetConfig e w) = Inr config"
    by (metis sum.collapse(2))
  with h assms(1) serve_no_ip [of req receiver e w config]
  show "status (fst (serve e req w)) = 400" "rows (snd (serve e req w)) = rows w"
    "n_insert (snd (serve e req w)) = n_insert w"
    by simp_all
qed

theorem serve_logs_once_witness:
  "\<exists>r. rows (snd (serve healthy_env sample_request world_at_limit)) = rows world_at_limit @ [r]
      \<and> n_insert (snd (serve healthy_env sample_request world_at_limit)) = Suc (n_insert world_at_limit)
      \<and> ip_address r = request_ip sample_request
      \<and> success r = (status (fst (serve healthy_env sample_request world_at_limit)) = 200)"
proof -
  have 1: "req_method sample_request \<noteq> ''OPTIONS''" by (simp add: sample_request_def)
  have 2: "insert_resp healthy_env (n_insert world_at_limit) = InsertOk"
    by (simp add: healthy_env_def)
  have 3: "request_ip sample_request \<noteq> []" by (simp add: sample_request_ip)
  show ?thesis
    using serve_logs_once [OF 1 2] 3 by simp
qed

text \<open>The claim as it was stated fails for a POST request that carries no IP header: the
  answer is 400 and no row is written.\<close>

theorem serve_without_ip_logs_nothing:
  "status (fst (serve healthy_env no_ip_request world0)) = 400
   \<and> rows (snd (serve healthy_env no_ip_request world0)) = rows world0
   \<and> n_insert (snd (serve healthy_env no_ip_request world0)) = n_insert world0
   \<and> \<not> (\<exists>r. rows (snd (serve healthy_env no_ip_request world0)) = rows world0 @ [r])
   \<and> insert_resp healthy_env (n_insert world0) = InsertOk
   \<and> req_method no_ip_request = ''POST''"
  by (simp add: serve_def serve_try_def no_ip_request_def request_ip_def healthy_env_def world0_def
        fetchFaucetConfig_def case_prod_beta)

section \<open>The prefix check\<close>

lemma insert_chain_frame:
  "n_connect (snd (insertUserRequest e ip rg ua rc ok h w)) = n_connect w"
  "n_getAccount (snd (insertUserRequest e ip rg ua rc ok h w)) = n_getAccount w"
  "n_broadcast (snd (insertUserRequest e ip rg ua rc ok h w)) = n_broadcast w"
  "n_chainId (snd (insertUserRequest e ip rg ua rc ok h w)) = n_chainId w"
  "n_balances (snd (insertUserRequest e ip rg ua rc ok h w)) = n_balances w"
  "n_wallet (snd (insertUserRequest e ip rg ua rc ok h w)) = n_wallet w"
  "n_config (snd (insertUserRequest e ip rg ua rc ok h w)) = n_config w"
  by (simp_all add: insertUserRequest_def split: insert_fetch.splits)

lemma count_chain_frame:
  "getRequestCountByIp e ip t w = (r, w') \<Longrightarrow>
     n_connect w' = n_connect w \<and> n_getAccount w' = n_getAccount w \<and> n_broadcast w' = n_broadcast w
     \<and> n_chainId w' = n_chainId w \<and> n_balances w' = n_balances w \<and> n_wallet w' = n_wallet w
     \<and> n_config w' = n_config w"
  "getRequestCountByAddress e a t w = (r, w') \<Longrightarrow>
     n_connect w' = n_connect w \<and> n_getAccount w' = n_getAccount w \<and> n_broadcast w' = n_broadcast w
     \<and> n_chainId w' = n_chainId w \<and> n_balances w' = n_balances w \<and> n_wallet w' = n_wallet w
     \<and> n_config w' = n_config w"
  by (auto simp: getRequestCountByIp_def getRequestCountByAddress_def split: count_fetch.splits)

lemma config_chain_frame:
  "fetchFaucetConfig e w = (Inr config, w') \<Longrightarrow>
     n_connect w' = n_connect w \<and> n_getAccount w' = n_getAccount w \<and> n_broadcast w' = n_broadcast w
     \<and> n_chainId w' = n_chainId w \<and> n_balances w' = n_balances w \<and> n_wallet w' = n_wallet w
     \<and> n_config w' = Suc (n_config w)"
  by (auto simp: fetchFaucetConfig_def split: config_fetch.splits list.splits if_splits)

lemma serve_checked_invalid:
  assumes "\<not> L \<le> int a" "\<not> L \<le> int b"
    and "\<not> truthy rc \<or> \<not> startsWith (column_toString rc) (column_toString P)"
  shows "serve_checked e ip ua rc P L a b w =
     (case log_failed_then e ip ua rc
             \<lparr>status = 400, body = Some (JObject [(''error'', JString
                (''Invalid receiver address. Must start with: '' @ column_toString P))])\<rparr> w of
        (Inl err, w1) \<Rightarrow> (Inl (err, None), w1)
      | (Inr resp, w1) \<Rightarrow> (Inr resp, w1))"
  using assms unfolding serve_checked_def by auto


lemma wrong_prefix_request_ip: "request_ip wrong_prefix_request = ''203.0.113.7''"
  by code_simp


section \<open>The counting queries\<close>

lemma serve_allowed:
  assumes "req_method req \<noteq> ''OPTIONS''" "req_receiver req = Inr receiver"
    and "fetchFaucetConfig e w = (Inr config, w1)" "request_ip req \<noteq> []"
    and "getRequestCountByIp e (request_ip req) (now w1 - 24 * 60 * 60 * 1000) w1 = (Inr ipCount, w2)"
    and "getRequestCountByAddress e receiver (now w1 - 24 * 60 * 60 * 1000) w2 = (Inr addrCount, w3)"
    and "\<not> requests_limit config \<le> int ipCount" "\<not> requests_limit config \<le> int addrCount"
  shows "status (fst (serve e req w)) \<noteq> 429"
proof (cases "fst (serve_checked e (request_ip req) (request_user_agent req) receiver
                  (prefix_col config) (requests_limit config) ipCount addrCount w3)")
  case (Inl x)
  then show ?thesis
    unfolding serve_to_checked [OF assms(1-6)] by (cases x) (simp add: case_prod_beta)
next
  case (Inr resp)
  with serve_checked_status [OF Inr assms(7,8)] show ?thesis
    unfolding serve_to_checked [OF assms(1-6)] by (auto simp: case_prod_beta)
qed

lemma failed_count_is_zero:
  "count_resp e (n_count w) = CountNotOk \<or> count_resp e (n_count w) = CountOkNotArray \<Longrightarrow>
   getRequestCountByIp e ip t w = (Inr 0, w\<lparr>n_count := Suc (n_count w)\<rparr>)
   \<and> getRequestCountByAddress e a t w = (Inr 0, w\<lparr>n_count := Suc (n_count w)\<rparr>)"
  by (auto simp: getRequestCountByIp_def getRequestCountByAddress_def)

text \<open>
  Claim C10. A counting query that is answered with a status that is not OK, or with a body
  that is not an array, counts 0 whatever the table holds. So with a positive limit, a
  request whose IP query fails is not answered 429 as long as its address count is below
  the limit, and a request whose address query fails is not answered 429 as long as its IP
  count is below the limit: the check fails open.
\<close>

theorem quota_fails_open:
  assumes "req_method req \<noteq> ''OPTIONS''" "req_receiver req = Inr receiver"
    and "fetchFaucetConfig e w = (Inr config, w1)" "request_ip req \<noteq> []"
    and "0 < requests_limit config"
  shows "(count_resp e (n_count w1) = CountNotOk \<or> count_resp e (n_count w1) = CountOkNotArray \<longrightarrow>
           fst (getRequestCountByIp e (request_ip req) (now w1 - 24 * 60 * 60 * 1000) w1) = Inr 0
           \<and> (\<forall>addrCount w3.
                 getRequestCountByAddress e receiver (now w1 - 24 * 60 * 60 * 1000)
                   (w1\<lparr>n_count := Suc (n_count w1)\<rparr>) = (Inr addrCount, w3)
                 \<and> int addrCount < requests_limit config
                 \<longrightarrow> status (fst (serve e req w)) \<noteq> 429))
       \<and> (count_resp e (Suc (n_count w1)) = CountNotOk
            \<or> count_resp e (Suc (n_count w1)) = CountOkNotArray \<longrightarrow>
           (\<forall>ipCount w2.
                 getRequestCountByIp e (request_ip req) (now w1 - 24 * 60 * 60 * 1000) w1
                   = (Inr ipCount, w2)
                 \<and> int ipCount < requests_limit config
                 \<longrightarrow> fst (getRequestCountByAddress e receiver (now w1 - 24 * 60 * 60 * 1000) w2) = Inr 0
                     \<and> status (fst (serve e req w)) \<noteq> 429))"
proof (intro conjI impI allI)
  assume f: "count_resp e (n_count w1) = CountNotOk \<or> count_resp e (n_count w1) = CountOkNotArray"
  from failed_count_is_zero [OF f]
  show "fst (getRequestCountByIp e (request_ip req) (now w1 - 24 * 60 * 60 * 1000) w1) = Inr 0"
    by simp
next
  fix addrCount w3
  assume f: "count_resp e (n_count w1) = CountNotOk \<or> count_resp e (n_count w1) = CountOkNotArray"
    and a: "getRequestCountByAddress e receiver (now w1 - 24 * 60 * 60 * 1000)
                   (w1\<lparr>n_count := Suc (n_count w1)\<rparr>) = (Inr addrCount, w3)
                 \<and> int addrCount < requests_limit config"
  have ip: "getRequestCountByIp e (request_ip req) (now w1 - 24 * 60 * 60 * 1000) w1
            = (Inr 0, w1\<lparr>n_count := Suc (n_count w1)\<rparr>)"
    using failed_count_is_zero [OF f] by simp
  show "status (fst (serve e req w)) \<noteq> 429"
    by (rule serve_allowed [OF assms(1-4) ip]) (use a assms(5) in auto)
next
  fix ipCount w2
  assume f: "count_resp e (Suc (n_count w1)) = CountNotOk
            \<or> count_resp e (Suc (n_count w1)) = CountOkNotArray"
    and i: "getRequestCountByIp e (request_ip req) (now w1 - 24 * 60 * 60 * 1000) w1
                   = (Inr ipCount, w2) \<and> int ipCount < requests_limit config"
  from i have n: "n_count w2 = Suc (n_count w1)"
    by (auto simp: getRequestCountByIp_def split: count_fetch.splits)
  have ad: "getRequestCountByAddress e receiver (now w1 - 24 * 60 * 60 * 1000) w2
            = (Inr 0, w2\<lparr>n_count := Suc (n_count w2)\<rparr>)"
    using failed_count_is_zero [of e w2] f n by simp
  then show "fst (getRequestCountByAddress e receiver (now w1 - 24 * 60 * 60 * 1000) w2) = Inr 0"
    by simp
  from i have i': "getRequestCountByIp e (request_ip req) (now w1 - 24 * 60 * 60 * 1000) w1
                   = (Inr ipCount, w2)" by simp
  show "status (fst (serve e req w)) \<noteq> 429"
    by (rule serve_allowed [OF assms(1-4) i' ad]) (use i assms(5) in auto)
qed

theorem quota_fails_open_witness:
  "fst (getRequestCountByIp failing_counts_env (request_ip sample_request)
          (now (world_at_limit\<lparr>n_config := 1\<rparr>) - 24 * 60 * 60 * 1000)
          (world_at_limit\<lparr>n_config := 1\<rparr>)) = Inr 0
   \<and> status (fst (serve failing_counts_env sample_request world_at_limit)) \<noteq> 429"
proof -
  let ?w1 = "world_at_limit\<lparr>n_config := 1\<rparr>"
  let ?w3 = "world_at_limit\<lparr>n_config := 1, n_count := 2\<rparr>"
  have 1: "req_method sample_request \<noteq> ''OPTIONS''" by (simp add: sample_request_def)
  have 2: "req_receiver sample_request = Inr (Val ''addr_safro1xyz'')" by (simp add: sample_request_def)
  have 3: "fetchFaucetConfig failing_counts_env world_at_limit = (Inr sample_config, ?w1)"
    by (simp add: fetchFaucetConfig_def failing_counts_env_def healthy_env_def world_at_limit_def
          world0_def)
  have 4: "request_ip sample_request \<noteq> []" by (simp add: sample_request_ip)
  have 5: "0 < requests_limit sample_config" by (simp add: requests_limit_def sample_config_def)
  have 6: "count_resp failing_counts_env (n_count ?w1) = CountNotOk
           \<or> count_resp failing_counts_env (n_count ?w1) = CountOkNotArray"
    by (simp add: failing_counts_env_def healthy_env_def world_at_limit_def world0_def)
  have 7: "getRequestCountByAddress failing_counts_env (Val ''addr_safro1xyz'')
             (now ?w1 - 24 * 60 * 60 * 1000) (?w1\<lparr>n_count := Suc (n_count ?w1)\<rparr>) = (Inr 0, ?w3)
           \<and> int 0 < requests_limit sample_config"
    by (simp add: getRequestCountByAddress_def failing_counts_env_def healthy_env_def
          world_at_limit_def world0_def select_rows_def ip_row_def column_toString_def
          requests_limit_def sample_config_def)
  show ?thesis
    using quota_fails_open [OF 1 2 3 4 5] 6 7 by blast
qed

lemma select_success_only:
  "select_rows (f # Success_eq True # fs) (filter success rs) = select_rows (f # Success_eq True # fs) rs"
  unfolding select_rows_def by (induction rs) auto

lemma select_rows_window:
  "select_rows [f, Success_eq True, Request_timestamp_gte t] rs
   = filter (\<lambda>r. row_matches r f \<and> success r \<and> t \<le> request_timestamp r) rs"
  by (simp add: select_rows_def)

lemma count_store:
  assumes "filter success rs = filter success (rows w)"
  shows "getRequestCountByIp e ip t (set_store rs k w)
         = (fst (getRequestCountByIp e ip t w), set_store rs k (snd (getRequestCountByIp e ip t w)))"
    and "getRequestCountByAddress e a t (set_store rs k w)
         = (fst (getRequestCountByAddress e a t w),
            set_store rs k (snd (getRequestCountByAddress e a t w)))"
proof -
  have "select_rows (f # Success_eq True # fs) rs = select_rows (f # Success_eq True # fs) (rows w)"
    for f fs
    using select_success_only [of f fs rs] select_success_only [of f fs "rows w"] assms by simp
  then show "getRequestCountByIp e ip t (set_store rs k w)
         = (fst (getRequestCountByIp e ip t w), set_store rs k (snd (getRequestCountByIp e ip t w)))"
    "getRequestCountByAddress e a t (set_store rs k w)
         = (fst (getRequestCountByAddress e a t w),
            set_store rs k (snd (getRequestCountByAddress e a t w)))"
    by (simp_all add: getRequestCountByIp_def getRequestCountByAddress_def set_store_def
          split: count_fetch.splits)
qed

lemma insert_store_fst:
  "fst (insertUserRequest e ip rg ua rc ok h (set_store rs (n_insert w) w))
   = fst (insertUserRequest e ip rg ua rc ok h w)"
  by (simp add: insertUserRequest_def split: insert_fetch.splits)

lemma log_failed_then_store:
  "fst (log_failed_then e ip ua rc resp (set_store rs (n_insert w) w))
   = fst (log_failed_then e ip ua rc resp w)"
  using insert_store_fst [of e ip None ua rc False None rs w]
  by (simp add: log_failed_then_def case_prod_beta split: option.splits)

lemma serve_dispatch_store:
  "fst (serve_dispatch e ip ua rc (set_store rs (n_insert w) w)) = fst (serve_dispatch e ip ua rc w)"
proof -
  let ?k = "n_insert w"
  let ?w1 = "snd (fetchRegion e ip w)"
  let ?w2 = "snd (sendTokens e (column_toString rc) ?w1)"
  have k: "n_insert ?w2 = ?k" by (simp add: sendTokens_frame fetchRegion_frame)
  have r: "fetchRegion e ip (set_store rs ?k w) = (fst (fetchRegion e ip w), set_store rs ?k ?w1)"
    by (rule fetchRegion_store)
  have t: "sendTokens e (column_toString rc) (set_store rs ?k ?w1)
           = (fst (sendTokens e (column_toString rc) ?w1), set_store rs ?k ?w2)"
    by (rule sendTokens_store)
  have i: "fst (insertUserRequest e ip rg ua rc ok h (set_store rs ?k ?w2))
           = fst (insertUserRequest e ip rg ua rc ok h ?w2)" for rg ok h
    using insert_store_fst [of e ip rg ua rc ok h rs ?w2] k by simp
  show ?thesis
    unfolding serve_dispatch_def r prod.case t
    by (cases "fst (sendTokens e (column_toString rc) ?w1)")
       (simp_all add: case_prod_beta i split: option.splits)
qed

lemma serve_checked_store:
  "fst (serve_checked e ip ua rc P L a b (set_store rs (n_insert w) w))
   = fst (serve_checked e ip ua rc P L a b w)"
  unfolding serve_checked_def
  by (simp add: serve_dispatch_store log_failed_then_store case_prod_beta split: sum.splits)

lemma serve_try_store:
  assumes "filter success rs = filter success (rows w)"
  shows "fst (serve_try e req (set_store rs (n_insert w) w)) = fst (serve_try e req w)"
proof (cases "req_receiver req")
  case (Inl err)
  then show ?thesis by (simp add: serve_try_def)
next
  case (Inr receiver)
  let ?k = "n_insert w"
  let ?w1 = "snd (fetchFaucetConfig e w)"
  let ?t = "now ?w1 - 24 * 60 * 60 * 1000"
  let ?w2 = "snd (getRequestCountByIp e (request_ip req) ?t ?w1)"
  let ?w3 = "snd (getRequestCountByAddress e receiver ?t ?w2)"
  have r1: "filter success rs = filter success (rows ?w1)"
    using assms by (simp add: fetchFaucetConfig_frame)
  have r2: "filter success rs = filter success (rows ?w2)"
    using assms by (simp add: fetchFaucetConfig_frame count_frame)
  have n: "n_insert ?w3 = ?k"
    by (simp add: fetchFaucetConfig_frame count_frame)
  have c0: "fetchFaucetConfig e (set_store rs ?k w) = (fst (fetchFaucetConfig e w), set_store rs ?k ?w1)"
    by (rule fetchFaucetConfig_store)
  have c1: "getRequestCountByIp e (request_ip req) ?t (set_store rs ?k ?w1)
            = (fst (getRequestCountByIp e (request_ip req) ?t ?w1), set_store rs ?k ?w2)"
    by (rule count_store(1) [OF r1])
  have c2: "getRequestCountByAddress e receiver ?t (set_store rs ?k ?w2)
            = (fst (getRequestCountByAddress e receiver ?t ?w2), set_store rs ?k ?w3)"
    by (rule count_store(2) [OF r2])
  have c3: "fst (serve_checked e ip ua rc P L a b (set_store rs ?k ?w3))
            = fst (serve_checked e ip ua rc P L a b ?w3)" for ip ua rc P L a b
    using serve_checked_store [of e ip ua rc P L a b rs ?w3] n by simp
  have t: "now (set_store rs ?k ?w1) = now ?w1" by simp
  show ?thesis
  proof (cases "fst (fetchFaucetConfig e w)")
    case (Inl err)
    then show ?thesis unfolding serve_try_def Inr sum.case c0 prod.case by (simp add: case_prod_beta)
  next
    case cfg: (Inr config)
    show ?thesis
    proof (cases "request_ip req = []")
      case True
      with cfg show ?thesis unfolding serve_try_def Inr sum.case c0 prod.case by (simp add: case_prod_beta)
    next
      case ne: False
      show ?thesis
      proof (cases "fst (getRequestCountByIp e (request_ip req) ?t ?w1)")
        case (Inl err)
        with cfg ne c1 show ?thesis
          unfolding serve_try_def Inr sum.case c0 prod.case by (simp add: case_prod_beta)
      next
        case ipc: (Inr ipRequestCount)
        show ?thesis
        proof (cases "fst (getRequestCountByAddress e receiver ?t ?w2)")
          case (Inl err)
          with cfg ne c1 c2 ipc show ?thesis
            unfolding serve_try_def Inr sum.case c0 prod.case by (simp add: case_prod_beta)
        next
          case adc: (Inr addressRequestCount)
          from cfg ne c1 c2 ipc adc
            c3 [of "request_ip req" "request_user_agent req" receiver "prefix_col config"
                   "requests_limit config" ipRequestCount addressRequestCount]
          show ?thesis
            unfolding serve_try_def Inr sum.case c0 prod.case
            by (simp add: case_prod_beta split: sum.splits)
        qed
      qed
    qed
  qed
qed

lemma serve_store:
  assumes "filter success rs = filter success (rows w)"
  shows "fst (serve e req (w\<lparr>rows := rs\<rparr>)) = fst (serve e req w)"
proof -
  have e: "w\<lparr>rows := rs\<rparr> = set_store rs (n_insert w) w" by (simp add: set_store_def)
  show ?thesis
    unfolding e serve_def
    using serve_try_store [OF assms, of e req]
    by (simp add: case_prod_beta split: sum.splits)
qed



section \<open>The retry loop\<close>

text \<open>What the calls of an attempt do to the counters of the chain client.\<close>

lemma stable_loop_keeps:
  assumes "\<And>w. f (snd (getAccount e w)) = f w" "\<And>ms w. f (sleep ms w) = f w"
  shows "f (snd (waitForSequenceStable_loop e s m l c w)) = f w"
  using assms
proof (induction e s m l c w rule: waitForSequenceStable_loop.induct)
  case (1 e s m l c w)
  note keep = "1.prems"
  have k1: "f (snd (getAccount e (sleep ms (snd (getAccount e w))))) = f w" for ms
    by (simp add: keep)
  have k2: "f (sleep ms (snd (getAccount e w))) = f w" for ms
    by (simp add: keep)
  show ?case
    apply (subst waitForSequenceStable_loop.simps)
    using "1.IH" keep k1 k2
    by (auto split: sum.splits)
qed

lemma update_loop_keeps:
  assumes "\<And>w. f (snd (getAccount e w)) = f w" "\<And>ms w. f (sleep ms w) = f w"
  shows "f (snd (waitForSequenceUpdate_loop e s m t w)) = f w"
  using assms
proof (induction e s m t w rule: waitForSequenceUpdate_loop.induct)
  case (1 e s m t w)
  note keep = "1.prems"
  have k2: "f (sleep ms (snd (getAccount e w))) = f w" for ms
    by (simp add: keep)
  show ?case
    apply (subst waitForSequenceUpdate_loop.simps)
    using "1.IH" keep k2
    by (auto split: sum.splits)
qed

lemma getAccount_keeps:
  "n_connect (snd (getAccount e w)) = n_connect w"
  "n_broadcast (snd (getAccount e w)) = n_broadcast w"
  "n_chainId (snd (getAccount e w)) = n_chainId w"
  "n_balances (snd (getAccount e w)) = n_balances w"
  by (simp_all add: getAccount_def)

lemma sleep_keeps:
  "n_connect (sleep ms w) = n_connect w"
  "n_broadcast (sleep ms w) = n_broadcast w"
  "n_chainId (sleep ms w) = n_chainId w"
  "n_balances (sleep ms w) = n_balances w"
  by (simp_all add: sleep_def)

lemma stable_keeps:
  "n_connect (snd (waitForSequenceStable e x m w)) = n_connect w"
  "n_broadcast (snd (waitForSequenceStable e x m w)) = n_broadcast w"
  "n_chainId (snd (waitForSequenceStable e x m w)) = n_chainId w"
  "n_balances (snd (waitForSequenceStable e x m w)) = n_balances w"
  unfolding waitForSequenceStable_def
  by (rule stable_loop_keeps; simp add: getAccount_keeps sleep_keeps)+

lemma update_keeps:
  "n_connect (snd (waitForSequenceUpdate e x m w)) = n_connect w"
  "n_broadcast (snd (waitForSequenceUpdate e x m w)) = n_broadcast w"
  "n_chainId (snd (waitForSequenceUpdate e x m w)) = n_chainId w"
  "n_balances (snd (waitForSequenceUpdate e x m w)) = n_balances w"
  unfolding waitForSequenceUpdate_def
  by (rule update_loop_keeps; simp add: getAccount_keeps sleep_keeps)+

lemma chain_calls_keep:
  "n_connect (snd (signAndBroadcast e w)) = n_connect w"
  "n_broadcast (snd (signAndBroadcast e w)) = Suc (n_broadcast w)"
  "n_chainId (snd (signAndBroadcast e w)) = n_chainId w"
  "n_balances (snd (signAndBroadcast e w)) = n_balances w"
  "n_connect (snd (getChainId e w)) = n_connect w"
  "n_broadcast (snd (getChainId e w)) = n_broadcast w"
  "n_chainId (snd (getChainId e w)) = Suc (n_chainId w)"
  "n_balances (snd (getChainId e w)) = n_balances w"
  "n_connect (snd (getAllBalances e a w)) = n_connect w"
  "n_broadcast (snd (getAllBalances e a w)) = n_broadcast w"
  "n_balances (snd (getAllBalances e a w)) = Suc (n_balances w)"
  "n_connect (snd (connectWithSigner e rpc w)) = Suc (n_connect w)"
  "n_broadcast (snd (connectWithSigner e rpc w)) = n_broadcast w"
  "fst (connectWithSigner e rpc w) = connect_resp e (n_connect w)"
  "fst (signAndBroadcast e w) = broadcast_resp e (n_broadcast w)"
  "fst (getChainId e w) = chainId_resp e (n_chainId w)"
  "fst (getAllBalances e a w) = balances_resp e (n_balances w)"
  by (simp_all add: signAndBroadcast_def getChainId_def getAllBalances_def connectWithSigner_def)

lemmas chain_keeps = getAccount_keeps sleep_keeps stable_keeps update_keeps chain_calls_keep

lemma attempt_connect: "n_connect (snd (attempt e sa ra am me ex w)) = n_connect w"
  unfolding attempt_def
  by (simp add: case_prod_beta chain_keeps split: sum.splits)

lemma attempt_broadcast_le:
  "n_broadcast (snd (attempt e sa ra am me ex w)) \<le> Suc (n_broadcast w)"
  unfolding attempt_def
  by (simp add: case_prod_beta chain_keeps split: sum.splits)

lemma attempt_fails:
  "isl (broadcast_resp e (n_broadcast w)) \<Longrightarrow> isl (fst (attempt e sa ra am me ex w))"
  unfolding attempt_def
  by (auto simp: case_prod_beta chain_keeps isl_def split: sum.splits)

lemma retry_loop_exhausted:
  assumes c: "\<forall>k. connect_resp e k = None" and b: "\<forall>k. isl (broadcast_resp e k)"
  shows "\<exists>w4 err. n_connect w4 = n_connect w + Suc n
           \<and> fst (attempt e sa ra am me ex w4) = Inl err
           \<and> retry_loop e rpc sa ra am me ex (Suc n) t w
               = (Inl (Error (''Transaction failed after multiple retries: '' @ message err)),
                  sleep (backoff err) (snd (attempt e sa ra am me ex w4)))
           \<and> n_broadcast (snd (retry_loop e rpc sa ra am me ex (Suc n) t w))
               \<le> n_broadcast w + Suc n"
proof (induction n arbitrary: t w)
  case 0
  let ?w1 = "snd (connectWithSigner e rpc w)"
  obtain err where err: "fst (attempt e sa ra am me ex ?w1) = Inl err"
    using attempt_fails [of e ?w1 sa ra am me ex] b by (auto simp: isl_def)
  have "retry_loop e rpc sa ra am me ex (Suc 0) t w
        = (Inl (Error (''Transaction failed after multiple retries: '' @ message err)),
           sleep (backoff err) (snd (attempt e sa ra am me ex ?w1)))"
    using c err by (simp add: case_prod_beta chain_keeps)
  moreover have "n_broadcast (sleep (backoff err) (snd (attempt e sa ra am me ex ?w1)))
                 \<le> n_broadcast w + Suc 0"
    using attempt_broadcast_le [of e sa ra am me ex ?w1] by (simp add: chain_keeps)
  ultimately show ?case using err
    by (intro exI [of _ ?w1] exI [of _ err]) (simp add: chain_keeps)
next
  case (Suc n)
  let ?w1 = "snd (connectWithSigner e rpc w)"
  obtain err where err: "fst (attempt e sa ra am me ex ?w1) = Inl err"
    using attempt_fails [of e ?w1 sa ra am me ex] b by (auto simp: isl_def)
  let ?w' = "sleep (backoff err) (snd (attempt e sa ra am me ex ?w1))"
  have step: "retry_loop e rpc sa ra am me ex (Suc (Suc n)) t w
              = retry_loop e rpc sa ra am me ex (Suc n) (Some err) ?w'"
    using c err by (simp add: case_prod_beta chain_keeps)
  have nc: "n_connect ?w' = Suc (n_connect w)" by (simp add: chain_keeps attempt_connect)
  have nb: "n_broadcast ?w' \<le> Suc (n_broadcast w)"
    using attempt_broadcast_le [of e sa ra am me ex ?w1] by (simp add: chain_keeps)
  from Suc [where t = "Some err" and w = ?w'] obtain w4 err' where
    "n_connect w4 = n_connect ?w' + Suc n"
    "fst (attempt e sa ra am me ex w4) = Inl err'"
    "retry_loop e rpc sa ra am me ex (Suc n) (Some err) ?w'
       = (Inl (Error (''Transaction failed after multiple retries: '' @ message err')),
          sleep (backoff err') (snd (attempt e sa ra am me ex w4)))"
    "n_broadcast (snd (retry_loop e rpc sa ra am me ex (Suc n) (Some err) ?w'))
       \<le> n_broadcast ?w' + Suc n"
    by blast
  then show ?case
    unfolding step using nc nb
    by (intro exI [of _ w4] exI [of _ err']) simp
qed

lemma steady_observation:
  "\<forall>k. \<exists>a. getAccount_resp e k = Inr a \<and> sequence_of a = v \<Longrightarrow> observation e k = Some v"
  by (auto simp: observation_def split: sum.splits) (metis Inl_Inr_False, metis sum.inject(2))

lemma stable_steady:
  assumes "\<forall>k. \<exists>a. getAccount_resp e k = Inr a \<and> sequence_of a = v" "0 < m"
  shows "fst (waitForSequenceStable e x m w) = Inr v"
  unfolding waitForSequenceStable_def
  by (rule stable_window [where m = 6]) (use assms steady_observation in auto)

lemma attempt_steady_fail:
  assumes s: "\<forall>k. \<exists>a. getAccount_resp e k = Inr a \<and> sequence_of a = v"
    and b: "broadcast_resp e (n_broadcast w) = Inl err"
  shows "fst (attempt e sa ra am me ex w) = Inl err"
    and "n_broadcast (snd (attempt e sa ra am me ex w)) = Suc (n_broadcast w)"
proof -
  let ?w1 = "snd (waitForSequenceStable e 0 10000 w)"
  have st: "fst (waitForSequenceStable e 0 10000 w) = Inr v"
    by (rule stable_steady [OF s]) simp
  obtain a where a: "getAccount_resp e (n_getAccount (sleep 1000 ?w1)) = Inr a" "sequence_of a = v"
    using s by blast
  then have fc: "fst (getAccount e (sleep 1000 ?w1)) = Inr a" by simp
  let ?w2 = "snd (getAccount e (sleep 1000 ?w1))"
  have nb: "n_broadcast ?w2 = n_broadcast w" by (simp add: chain_keeps)
  show "fst (attempt e sa ra am me ex w) = Inl err"
    unfolding attempt_def using st fc a(2) b nb
    by (simp add: case_prod_beta chain_keeps)
  show "n_broadcast (snd (attempt e sa ra am me ex w)) = Suc (n_broadcast w)"
    unfolding attempt_def using st fc a(2) b nb
    by (simp add: case_prod_beta chain_keeps)
qed

lemma retry_loop_steady:
  assumes c: "\<forall>k. connect_resp e k = None" and b: "\<forall>k. isl (broadcast_resp e k)"
    and s: "\<forall>k. \<exists>a. getAccount_resp e k = Inr a \<and> sequence_of a = v"
  shows "\<exists>err. broadcast_resp e (n_broadcast w + n) = Inl err
           \<and> fst (retry_loop e rpc sa ra am me ex (Suc n) t w)
               = Inl (Error (''Transaction failed after multiple retries: '' @ message err))
           \<and> n_broadcast (snd (retry_loop e rpc sa ra am me ex (Suc n) t w))
               = n_broadcast w + Suc n"
proof (induction n arbitrary: t w)
  case 0
  let ?w1 = "snd (connectWithSigner e rpc w)"
  obtain err where err: "broadcast_resp e (n_broadcast w) = Inl err"
    using b by (auto simp: isl_def)
  then have e1: "broadcast_resp e (n_broadcast ?w1) = Inl err" by (simp add: chain_keeps)
  note at = attempt_steady_fail [OF s e1, of sa ra am me ex]
  show ?case
    using c err at by (intro exI [of _ err]) (simp add: case_prod_beta chain_keeps)
next
  case (Suc n)
  let ?w1 = "snd (connectWithSigner e rpc w)"
  obtain err where err: "broadcast_resp e (n_broadcast w) = Inl err"
    using b by (auto simp: isl_def)
  then have e1: "broadcast_resp e (n_broadcast ?w1) = Inl err" by (simp add: chain_keeps)
  note at = attempt_steady_fail [OF s e1, of sa ra am me ex]
  let ?w' = "sleep (backoff err) (snd (attempt e sa ra am me ex ?w1))"
  have step: "retry_loop e rpc sa ra am me ex (Suc (Suc n)) t w
              = retry_loop e rpc sa ra am me ex (Suc n) (Some err) ?w'"
    using c at by (simp add: case_prod_beta chain_keeps)
  have nb: "n_broadcast ?w' = Suc (n_broadcast w)" using at by (simp add: chain_keeps)
  from Suc [where t = "Some err" and w = ?w'] show ?case
    unfolding step nb by simp
qed

lemma config_keeps:
  "fetchFaucetConfig e w = (Inr config, w1) \<Longrightarrow>
   n_connect w1 = n_connect w \<and> n_broadcast w1 = n_broadcast w"
  by (auto simp: fetchFaucetConfig_def split: config_fetch.splits list.splits if_splits)

text \<open>
  Claim C5. With a usable configuration, a wallet and a client that can be made, and a
  chain that answers every broadcast with a sequence-conflict error, \<^verbatim>\<open>sendTokens\<close>
  makes exactly five attempts (five clients, at most five broadcasts) and then throws
  \<^verbatim>\<open>Transaction failed after multiple retries:\<close> followed by the message of the error
  that ended the fifth attempt; it never returns a result. When in addition every read of
  the sequence shows the same value, each attempt reaches its broadcast: there are exactly
  five broadcasts and the message is that of the fifth one's error.
\<close>

theorem sendTokens_retry_bound:
  assumes "fetchFaucetConfig e w = (Inr config, w1)"
    and "truthy (mnemonic config)"
    and "12 \<le> length (split_on CHR '' '' (column_toString (mnemonic config)))"
    and "validateMnemonic e (column_toString (mnemonic config))"
    and "truthy (rpc_endpoint config)" "truthy (denom config)" "truthy (amount config)"
      "truthy (prefix_col config)"
    and "wallet_resp e (n_wallet w1) = Inr senderAddress"
    and "\<forall>k. connect_resp e k = None"
    and "\<forall>k. \<exists>m. broadcast_resp e k = Inl (Error m) \<and> isSequenceError m"
  shows "\<exists>err w4.
           fst (sendTokens e receiverAddress w)
             = Inl (Error (''Transaction failed after multiple retries: '' @ message err))
         \<and> n_connect w4 = n_connect w + 5
         \<and> fst (attempt e senderAddress receiverAddress
                  \<lparr>coin_denom = column_toString (denom config),
                   coin_amount = column_toString (amount config)\<rparr>
                  (memo config)
                  (case explorer_url_prefix config of
                     Absent \<Rightarrow> default_explorer | c \<Rightarrow> column_toString c) w4) = Inl err
         \<and> n_connect (snd (sendTokens e receiverAddress w)) = n_connect w + 5
         \<and> n_broadcast (snd (sendTokens e receiverAddress w)) \<le> n_broadcast w + 5
         \<and> ((\<forall>k. \<exists>a. getAccount_resp e k = Inr a \<and> sequence_of a = v) \<longrightarrow>
               n_broadcast (snd (sendTokens e receiverAddress w)) = n_broadcast w + 5
               \<and> broadcast_resp e (n_broadcast w + 4) = Inl err)"
proof -
  let ?rpc = "if \<not> startsWith (column_toString (rpc_endpoint config)) ''http://''
                 \<and> \<not> startsWith (column_toString (rpc_endpoint config)) ''https://''
              then ''https://'' @ column_toString (rpc_endpoint config)
              else column_toString (rpc_endpoint config)"
  let ?am = "\<lparr>coin_denom = column_toString (denom config),
              coin_amount = column_toString (amount config)\<rparr>"
  let ?ex = "case explorer_url_prefix config of Absent \<Rightarrow> default_explorer | c \<Rightarrow> column_toString c"
  let ?w2 = "w1\<lparr>n_wallet := Suc (n_wallet w1)\<rparr>"
  have b: "\<forall>k. isl (broadcast_resp e k)" using assms(11) by (metis isl_def)
  have run: "sendTokens e receiverAddress w
             = retry_loop e ?rpc senderAddress receiverAddress ?am (memo config) ?ex (Suc 4) None ?w2"
    unfolding sendTokens_def assms(1) prod.case sum.case
    using assms(2-9) by (simp add: senderAccount_def)
  have k: "n_connect ?w2 = n_connect w" "n_broadcast ?w2 = n_broadcast w"
    using config_keeps [OF assms(1)] by simp_all
  from retry_loop_exhausted [OF assms(10) b, of ?w2 4 senderAddress receiverAddress ?am
      "memo config" ?ex ?rpc None]
  obtain w4 err where g:
    "n_connect w4 = n_connect ?w2 + Suc 4"
    "fst (attempt e senderAddress receiverAddress ?am (memo config) ?ex w4) = Inl err"
    "retry_loop e ?rpc senderAddress receiverAddress ?am (memo config) ?ex (Suc 4) None ?w2
       = (Inl (Error (''Transaction failed after multiple retries: '' @ message err)),
          sleep (backoff err) (snd (attempt e senderAddress receiverAddress ?am (memo config) ?ex w4)))"
    "n_broadcast (snd (retry_loop e ?rpc senderAddress receiverAddress ?am (memo config) ?ex
                          (Suc 4) None ?w2)) \<le> n_broadcast ?w2 + Suc 4"
    by blast
  have nc: "n_connect (snd (sendTokens e receiverAddress w)) = n_connect w + 5"
    unfolding run g(3) using g(1) k by (simp add: chain_keeps attempt_connect)
  have steady: "n_broadcast (snd (sendTokens e receiverAddress w)) = n_broadcast w + 5
               \<and> broadcast_resp e (n_broadcast w + 4) = Inl err"
    if s: "\<forall>k. \<exists>a. getAccount_resp e k = Inr a \<and> sequence_of a = v"
  proof -
    from retry_loop_steady [OF assms(10) b s, of ?w2 4 ?rpc senderAddress receiverAddress ?am
        "memo config" ?ex None]
    obtain err' where h:
      "broadcast_resp e (n_broadcast ?w2 + 4) = Inl err'"
      "fst (retry_loop e ?rpc senderAddress receiverAddress ?am (memo config) ?ex (Suc 4) None ?w2)
         = Inl (Error (''Transaction failed after multiple retries: '' @ message err'))"
      "n_broadcast (snd (retry_loop e ?rpc senderAddress receiverAddress ?am (memo config) ?ex
                            (Suc 4) None ?w2)) = n_broadcast ?w2 + Suc 4"
      by blast
    from h(2) g(3) have "message err' = message err" by simp
    then have "err' = err" by (cases err; cases err') simp
    with h(1,3) k show ?thesis unfolding run by simp
  qed
  show ?thesis
    apply (intro exI [of _ err] exI [of _ w4])
    using g(1,2,4) nc steady k unfolding run g(3)
    by simp
qed

lemma conflict_message:
  "isSequenceError ''account sequence mismatch, expected 8, got 7: incorrect account sequence''"
  by code_simp

lemma sample_mnemonic_words:
  "12 \<le> length (split_on CHR '' '' (column_toString (mnemonic sample_config)))"
  by code_simp

theorem sendTokens_retry_bound_witness:
  "fst (sendTokens conflict_env ''addr_safro1xyz'' world0)
     = Inl (Error (''Transaction failed after multiple retries: ''
          @ ''account sequence mismatch, expected 8, got 7: incorrect account sequence''))
   \<and> n_connect (snd (sendTokens conflict_env ''addr_safro1xyz'' world0)) = 5
   \<and> n_broadcast (snd (sendTokens conflict_env ''addr_safro1xyz'' world0)) = 5"
proof -
  have 1: "fetchFaucetConfig conflict_env world0 = (Inr sample_config, world0\<lparr>n_config := 1\<rparr>)"
    by (simp add: fetchFaucetConfig_def conflict_env_def healthy_env_def world0_def)
  have 2: "truthy (mnemonic sample_config)" "truthy (rpc_endpoint sample_config)"
    "truthy (denom sample_config)" "truthy (amount sample_config)"
    "truthy (prefix_col sample_config)"
    by (simp_all add: truthy_def sample_config_def)
  have 3: "validateMnemonic conflict_env (column_toString (mnemonic sample_config))"
    by (simp add: conflict_env_def healthy_env_def)
  have 4: "wallet_resp conflict_env (n_wallet (world0\<lparr>n_config := 1\<rparr>)) = Inr ''addr_safro1sender''"
    by (simp add: conflict_env_def healthy_env_def)
  have 5: "\<forall>k. connect_resp conflict_env k = None"
    by (simp add: conflict_env_def healthy_env_def)
  have 6: "\<forall>k. \<exists>m. broadcast_resp conflict_env k = Inl (Error m) \<and> isSequenceError m"
    using conflict_message by (simp add: conflict_env_def)
  have 7: "\<forall>k. \<exists>a. getAccount_resp conflict_env k = Inr a \<and> sequence_of a = 7"
    by (simp add: conflict_env_def healthy_env_def sequence_of_def)
  have 8: "broadcast_resp conflict_env k
           = Inl (Error ''account sequence mismatch, expected 8, got 7: incorrect account sequence'')"
    for k by (simp add: conflict_env_def)
  have 9: "n_connect world0 = 0" "n_broadcast world0 = 0" by (simp_all add: world0_def)
  from sendTokens_retry_bound [OF 1 2(1) sample_mnemonic_words 3 2(2-5) 4 5 6,
      of "''addr_safro1xyz''" 7] 7
  obtain err where
    "fst (sendTokens conflict_env ''addr_safro1xyz'' world0)
       = Inl (Error (''Transaction failed after multiple retries: '' @ message err))"
    "n_connect (snd (sendTokens conflict_env ''addr_safro1xyz'' world0)) = n_connect world0 + 5"
    "n_broadcast (snd (sendTokens conflict_env ''addr_safro1xyz'' world0)) = n_broadcast world0 + 5"
    "broadcast_resp conflict_env (n_broadcast world0 + 4) = Inl err"
    by blast
  then show ?thesis unfolding 8 9 by auto
qed

section \<open>After a broadcast\<close>

lemma update_loop_returns:
  assumes "\<forall>k. n_getAccount w \<le> k \<longrightarrow> (\<exists>a. getAccount_resp e k = Inr a)"
  shows "\<exists>x. fst (waitForSequenceUpdate_loop e s m t w) = Inr x"
  using assms
proof (induction e s m t w rule: waitForSequenceUpdate_loop.induct)
  case (1 e s m t w)
  from "1.prems" obtain a where a: "getAccount_resp e (n_getAccount w) = Inr a" by blast
  show ?case
  proof (cases "now w - s < m \<and> \<not> t \<le> sequence_of a")
    case True
    have "\<exists>x. fst (waitForSequenceUpdate_loop e s m t (sleep 1000 (snd (getAccount e w)))) = Inr x"
      by (rule "1.IH" [of a]) (use True a "1.prems" in auto)
    with True a show ?thesis
      by (subst waitForSequenceUpdate_loop.simps) simp
  next
    case False
    with a show ?thesis
      by (subst waitForSequenceUpdate_loop.simps) auto
  qed
qed

lemma update_loop_timeout:
  assumes "\<forall>k a. n_getAccount w \<le> k \<and> getAccount_resp e k = Inr a \<longrightarrow> sequence_of a < t"
  shows "isl (fst (waitForSequenceUpdate_loop e s m t w))
         \<or> m \<le> now (snd (waitForSequenceUpdate_loop e s m t w)) - s"
  using assms
proof (induction e s m t w rule: waitForSequenceUpdate_loop.induct)
  case (1 e s m t w)
  show ?case
  proof (cases "getAccount_resp e (n_getAccount w)")
    case (Inl err)
    then show ?thesis by (subst waitForSequenceUpdate_loop.simps) simp
  next
    case (Inr a)
    with "1.prems" have lt: "sequence_of a < t" by auto
    show ?thesis
    proof (cases "now w - s < m")
      case True
      have "isl (fst (waitForSequenceUpdate_loop e s m t (sleep 1000 (snd (getAccount e w)))))
         \<or> m \<le> now (snd (waitForSequenceUpdate_loop e s m t (sleep 1000 (snd (getAccount e w))))) - s"
      proof (rule "1.IH" [of a])
        show "now w - s < m" by (rule True)
        show "fst (getAccount e w) = Inr a" using Inr by simp
        show "\<not> t \<le> sequence_of a" using lt by simp
        show "\<forall>k a. n_getAccount (sleep 1000 (snd (getAccount e w))) \<le> k
                    \<and> getAccount_resp e k = Inr a \<longrightarrow> sequence_of a < t"
          using "1.prems" by (auto simp: Suc_le_eq dest: less_imp_le)
      qed
      with True Inr lt show ?thesis
        by (subst (1 2) waitForSequenceUpdate_loop.simps) simp
    next
      case False
      with Inr show ?thesis
        by (subst (1 2) waitForSequenceUpdate_loop.simps) simp
    qed
  qed
qed


lemma healthy_stable:
  "waitForSequenceStable healthy_env 0 10000 (world0\<lparr>n_connect := 1\<rparr>)
   = (Inr 7, world0\<lparr>n_connect := 1, now := 100004200, n_getAccount := 6\<rparr>)"
  by code_simp


end
